theory Spec2Isabelle
  imports Main "HOL-Library.Word" "HOL-Library.Stream"
begin

unbundle bit_operations_syntax

section \<open>Python values and errors\<close>

text \<open>
  The values that travel through \<^verbatim>\<open>exercise.py\<close>: \<^verbatim>\<open>None\<close>, text, byte strings,
  integers and floats. Text is kept as its UTF-8 bytes, so that sending text to the store
  is the identity on the representation; a byte string is a list of 8-bit characters; a
  float is its IEEE 754 binary64 bit pattern.
\<close>

datatype pyval = PNone | PStr string | PBytes string | PInt int | PFloat "64 word"

datatype pyerror =
  TypeError | ValueError | OverflowError | AttributeError | UnicodeDecodeError | DataError |
  ResponseError

subsection \<open>Decimal text of integers: \<^verbatim>\<open>str(n)\<close>\<close>

definition digit_char :: "nat \<Rightarrow> char" where
  "digit_char d = ''0123456789'' ! d"

fun str_nat :: "nat \<Rightarrow> string" where
  "str_nat n = (if n < 10 then [digit_char n] else str_nat (n div 10) @ [digit_char (n mod 10)])"

declare str_nat.simps [simp del]

definition str_int :: "int \<Rightarrow> string" where
  "str_int i = (if i < 0 then CHR ''-'' # str_nat (nat (- i)) else str_nat (nat i))"

subsection \<open>Parsing integers: \<^verbatim>\<open>int(x)\<close>\<close>

definition is_digit :: "char \<Rightarrow> bool" where
  "is_digit c = (48 \<le> (of_char c :: nat) \<and> (of_char c :: nat) \<le> 57)"

definition digit_val :: "char \<Rightarrow> nat" where
  "digit_val c = of_char c - 48"

definition is_space :: "char \<Rightarrow> bool" where
  "is_space c = ((of_char c :: nat) = 32 \<or> (9 \<le> (of_char c :: nat) \<and> (of_char c :: nat) \<le> 13))"

definition strip :: "string \<Rightarrow> string" where
  "strip s = rev (dropWhile is_space (rev (dropWhile is_space s)))"

text \<open>Digits after the first one; a single underscore may stand between two digits.\<close>

fun digits_value :: "nat \<Rightarrow> string \<Rightarrow> nat option" where
  "digits_value acc [] = Some acc"
| "digits_value acc [c] = (if is_digit c then Some (10 * acc + digit_val c) else None)"
| "digits_value acc (c # d # cs) =
     (if is_digit c then digits_value (10 * acc + digit_val c) (d # cs)
      else if c = CHR ''_'' \<and> is_digit d then digits_value (10 * acc + digit_val d) cs
      else None)"

definition parse_nat :: "string \<Rightarrow> nat option" where
  "parse_nat s =
     (case s of [] \<Rightarrow> None
      | c # cs \<Rightarrow> if is_digit c then digits_value (digit_val c) cs else None)"

definition parse_int :: "string \<Rightarrow> int option" where
  "parse_int s =
     (case strip s of [] \<Rightarrow> None
      | c # cs \<Rightarrow>
          if c = CHR ''-'' then map_option (\<lambda>n. - int n) (parse_nat cs)
          else if c = CHR ''+'' then map_option int (parse_nat cs)
          else map_option int (parse_nat (c # cs)))"

text \<open>
  \<^verbatim>\<open>int(x)\<close> of a float cuts the fraction off: with exponent field \<open>e\<close> and fraction
  field \<open>m\<close> the magnitude of the float is \<open>(2 ^ 52 + m) * 2 ^ (e - 1075)\<close> (and below 1
  when \<open>e = 0\<close>); an infinity is an OverflowError and a NaN a ValueError.
\<close>

definition float_trunc :: "64 word \<Rightarrow> pyerror + int" where
  "float_trunc f =
     (let e = unat (drop_bit 52 f AND 0x7FF);
          m = unat (f AND 0xFFFFFFFFFFFFF);
          mag = (if e = 0 then 0
                 else if 1075 \<le> e then (2 ^ 52 + m) * 2 ^ (e - 1075)
                 else (2 ^ 52 + m) div 2 ^ (1075 - e))
      in if e = 2047 then (if m = 0 then Inl OverflowError else Inl ValueError)
         else Inr (if bit f 63 then - int mag else int mag))"

text \<open>
  \<^verbatim>\<open>int(x)\<close>: \<^verbatim>\<open>None\<close> is a TypeError, malformed text or bytes a ValueError. Only the
  ASCII digits and blanks are recognised (for bytes that is all there is).
\<close>

definition py_int :: "pyval \<Rightarrow> pyerror + int" where
  "py_int v =
     (case v of
        PNone \<Rightarrow> Inl TypeError
      | PInt i \<Rightarrow> Inr i
      | PFloat f \<Rightarrow> float_trunc f
      | PStr s \<Rightarrow> (case parse_int s of None \<Rightarrow> Inl ValueError | Some i \<Rightarrow> Inr i)
      | PBytes b \<Rightarrow> (case parse_int b of None \<Rightarrow> Inl ValueError | Some i \<Rightarrow> Inr i))"

subsection \<open>Textual forms: \<^verbatim>\<open>repr\<close> and \<^verbatim>\<open>str\<close>\<close>

definition hex_digit :: "nat \<Rightarrow> char" where
  "hex_digit d = ''0123456789abcdef'' ! d"

definition quote_for :: "string \<Rightarrow> char" where
  "quote_for s = (if CHR 0x27 \<in> set s \<and> CHR 0x22 \<notin> set s then CHR 0x22 else CHR 0x27)"

definition escape_char :: "char \<Rightarrow> char \<Rightarrow> string" where
  "escape_char q c =
     (let n = (of_char c :: nat) in
      if c = q \<or> c = CHR 0x5C then [CHR 0x5C, c]
      else if n = 9 then [CHR 0x5C, CHR ''t'']
      else if n = 10 then [CHR 0x5C, CHR ''n'']
      else if n = 13 then [CHR 0x5C, CHR ''r'']
      else if n < 32 \<or> 127 \<le> n then [CHR 0x5C, CHR ''x'', hex_digit (n div 16), hex_digit (n mod 16)]
      else [c])"

definition bytes_repr :: "string \<Rightarrow> string" where
  "bytes_repr b = (let q = quote_for b in CHR ''b'' # q # concat (map (escape_char q) b) @ [q])"

text \<open>
  The \<^verbatim>\<open>repr\<close> of text outside ASCII depends on the Unicode character database of the
  runtime (which characters are printable); that table is no part of the repository and
  the form of such text is left unspecified.
\<close>

definition unicode_repr :: "string \<Rightarrow> string" where
  "unicode_repr = undefined"

definition str_repr :: "string \<Rightarrow> string" where
  "str_repr s =
     (if list_all (\<lambda>c. (of_char c :: nat) < 128) s
      then (let q = quote_for s in q # concat (map (escape_char q) s) @ [q])
      else unicode_repr s)"

text \<open>
  The \<^verbatim>\<open>repr\<close> of a float is the shortest decimal text that reads back as the same
  float; the runtime's algorithm for it is no part of the repository and the text is
  left unspecified.
\<close>

definition float_repr :: "64 word \<Rightarrow> string" where
  "float_repr = undefined"

definition py_repr :: "pyval \<Rightarrow> string" where
  "py_repr v =
     (case v of
        PNone \<Rightarrow> ''None''
      | PStr s \<Rightarrow> str_repr s
      | PBytes b \<Rightarrow> bytes_repr b
      | PInt i \<Rightarrow> str_int i
      | PFloat f \<Rightarrow> float_repr f)"

definition py_str :: "pyval \<Rightarrow> string" where
  "py_str v = (case v of PStr s \<Rightarrow> s | _ \<Rightarrow> py_repr v)"

fun join :: "string \<Rightarrow> string list \<Rightarrow> string" where
  "join sep [] = []"
| "join sep [x] = x"
| "join sep (x # y # ys) = x @ sep @ join sep (y # ys)"

text \<open>\<^verbatim>\<open>str(args)\<close> for the tuple of positional arguments.\<close>

definition str_tuple :: "pyval list \<Rightarrow> string" where
  "str_tuple vs =
     (case vs of
        [v] \<Rightarrow> ''('' @ py_repr v @ '',)''
      | _ \<Rightarrow> ''('' @ join '', '' (map py_repr vs) @ '')'')"

subsection \<open>\<^verbatim>\<open>bytes.decode("utf-8")\<close>\<close>

definition cont :: "nat \<Rightarrow> bool" where
  "cont b = (128 \<le> b \<and> b \<le> 191)"

fun utf8_valid :: "nat list \<Rightarrow> bool" where
  "utf8_valid [] = True"
| "utf8_valid (a # bs) =
     (if a < 128 then utf8_valid bs
      else if 194 \<le> a \<and> a \<le> 223 then
        (case bs of b # r \<Rightarrow> cont b \<and> utf8_valid r | _ \<Rightarrow> False)
      else if 224 \<le> a \<and> a \<le> 239 then
        (case bs of
           b # c # r \<Rightarrow>
             cont b \<and> cont c \<and> (a = 224 \<longrightarrow> 160 \<le> b) \<and> (a = 237 \<longrightarrow> b \<le> 159) \<and>
             utf8_valid r
         | _ \<Rightarrow> False)
      else if 240 \<le> a \<and> a \<le> 244 then
        (case bs of
           b # c # d # r \<Rightarrow>
             cont b \<and> cont c \<and> cont d \<and> (a = 240 \<longrightarrow> 144 \<le> b) \<and> (a = 244 \<longrightarrow> b \<le> 143) \<and>
             utf8_valid r
         | _ \<Rightarrow> False)
      else False)"

definition decodable :: "string \<Rightarrow> bool" where
  "decodable b = utf8_valid (map of_char b)"

definition py_decode :: "string \<Rightarrow> pyerror + string" where
  "py_decode b = (if decodable b then Inr b else Inl UnicodeDecodeError)"

section \<open>The world outside the module\<close>

text \<open>
  The Redis server holds, under each key, a string or a list of strings; every client
  created by \<^verbatim>\<open>redis.Redis()\<close> talks to the same database. The operating system supplies
  random 128-bit blocks to \<^verbatim>\<open>uuid.uuid4\<close>, and \<^verbatim>\<open>print\<close> appends lines to standard output.
\<close>

datatype rvalue = RString string | RList "string list"

record world =
  db :: "string \<Rightarrow> rvalue option"
  urandom :: "128 word stream"
  stdout :: "string list"

type_synonym 'a prog = "world \<Rightarrow> (pyerror + 'a) \<times> world"

definition ok :: "'a \<Rightarrow> 'a prog" where
  "ok x = (\<lambda>w. (Inr x, w))"

definition raise :: "pyerror \<Rightarrow> 'a prog" where
  "raise e = (\<lambda>w. (Inl e, w))"

definition bnd :: "'a prog \<Rightarrow> ('a \<Rightarrow> 'b prog) \<Rightarrow> 'b prog" where
  "bnd m f = (\<lambda>w. case m w of (Inl e, w') \<Rightarrow> (Inl e, w') | (Inr x, w') \<Rightarrow> f x w')"

definition lift :: "pyerror + 'a \<Rightarrow> 'a prog" where
  "lift r = (case r of Inl e \<Rightarrow> raise e | Inr x \<Rightarrow> ok x)"

definition print :: "string \<Rightarrow> unit prog" where
  "print s = (\<lambda>w. (Inr (), w\<lparr>stdout := stdout w @ [s]\<rparr>))"

subsection \<open>\<^verbatim>\<open>uuid.uuid4\<close> and its text\<close>

primrec hex_fixed :: "nat \<Rightarrow> nat \<Rightarrow> string" where
  "hex_fixed 0 n = []"
| "hex_fixed (Suc k) n = hex_fixed k (n div 16) @ [hex_digit (n mod 16)]"

definition uuid4_int :: "128 word \<Rightarrow> 128 word" where
  "uuid4_int r =
     (let i1 = r AND NOT (push_bit 48 0xc000);
          i2 = i1 OR push_bit 48 0x8000;
          i3 = i2 AND NOT (push_bit 64 0xf000)
      in i3 OR push_bit 76 4)"

definition uuid_str :: "128 word \<Rightarrow> string" where
  "uuid_str u =
     (let h = hex_fixed 32 (unat u)
      in take 8 h @ ''-'' @ take 4 (drop 8 h) @ ''-'' @ take 4 (drop 12 h) @ ''-'' @
         take 4 (drop 16 h) @ ''-'' @ drop 20 h)"

definition uuid4 :: "(128 word) prog" where
  "uuid4 = (\<lambda>w. (Inr (uuid4_int (shd (urandom w))), w\<lparr>urandom := stl (urandom w)\<rparr>))"

subsection \<open>The Redis client\<close>

text \<open>
  What the client sends for a value: bytes as they are, text as UTF-8, an integer as its
  decimal text, a float as the text of its \<^verbatim>\<open>repr\<close>; anything else is refused with a
  DataError. Replies are byte strings.
\<close>

definition redis_encode :: "pyval \<Rightarrow> pyerror + string" where
  "redis_encode v =
     (case v of
        PNone \<Rightarrow> Inl DataError
      | PStr s \<Rightarrow> Inr s
      | PBytes b \<Rightarrow> Inr b
      | PInt i \<Rightarrow> Inr (str_int i)
      | PFloat f \<Rightarrow> Inr (float_repr f))"

definition redis_set :: "string \<Rightarrow> pyval \<Rightarrow> unit prog" where
  "redis_set k v =
     (case redis_encode v of
        Inl e \<Rightarrow> raise e
      | Inr b \<Rightarrow> (\<lambda>w. (Inr (), w\<lparr>db := (db w)(k \<mapsto> RString b)\<rparr>)))"

definition redis_get :: "string \<Rightarrow> (string option) prog" where
  "redis_get k =
     (\<lambda>w. case db w k of
        None \<Rightarrow> (Inr None, w)
      | Some (RString b) \<Rightarrow> (Inr (Some b), w)
      | Some (RList xs) \<Rightarrow> (Inl ResponseError, w))"

text \<open>
  The server reads a counter in its strict decimal form (no blanks, no plus sign, no
  leading zero). Counters are unbounded here, as Python's integers are.
\<close>

fun ll_digits :: "nat \<Rightarrow> string \<Rightarrow> nat option" where
  "ll_digits acc [] = Some acc"
| "ll_digits acc (c # cs) = (if is_digit c then ll_digits (10 * acc + digit_val c) cs else None)"

definition ll_positive :: "string \<Rightarrow> nat option" where
  "ll_positive s =
     (case s of [] \<Rightarrow> None
      | c # cs \<Rightarrow> if is_digit c \<and> c \<noteq> CHR ''0'' then ll_digits (digit_val c) cs else None)"

definition string2ll :: "string \<Rightarrow> int option" where
  "string2ll s =
     (if s = ''0'' then Some 0
      else case s of
        [] \<Rightarrow> None
      | c # cs \<Rightarrow>
          if c = CHR ''-'' then map_option (\<lambda>n. - int n) (ll_positive cs)
          else map_option int (ll_positive s))"

definition redis_incr :: "string \<Rightarrow> int prog" where
  "redis_incr k =
     (\<lambda>w. case db w k of
        None \<Rightarrow> (Inr 1, w\<lparr>db := (db w)(k \<mapsto> RString (str_int 1))\<rparr>)
      | Some (RString b) \<Rightarrow>
          (case string2ll b of
             None \<Rightarrow> (Inl ResponseError, w)
           | Some n \<Rightarrow> (Inr (n + 1), w\<lparr>db := (db w)(k \<mapsto> RString (str_int (n + 1)))\<rparr>))
      | Some (RList xs) \<Rightarrow> (Inl ResponseError, w))"

definition redis_rpush :: "string \<Rightarrow> pyval \<Rightarrow> nat prog" where
  "redis_rpush k v =
     (case redis_encode v of
        Inl e \<Rightarrow> raise e
      | Inr b \<Rightarrow>
          (\<lambda>w. case db w k of
             None \<Rightarrow> (Inr 1, w\<lparr>db := (db w)(k \<mapsto> RList [b])\<rparr>)
           | Some (RList xs) \<Rightarrow> (Inr (length xs + 1), w\<lparr>db := (db w)(k \<mapsto> RList (xs @ [b]))\<rparr>)
           | Some (RString s) \<Rightarrow> (Inl ResponseError, w)))"

definition list_range :: "'a list \<Rightarrow> int \<Rightarrow> int \<Rightarrow> 'a list" where
  "list_range xs start stop =
     (let n = int (length xs);
          s = (if start < 0 then max 0 (n + start) else start);
          e = (if stop < 0 then n + stop else min stop (n - 1))
      in if e < s \<or> n \<le> s then [] else take (nat (e - s + 1)) (drop (nat s) xs))"

definition redis_lrange :: "string \<Rightarrow> int \<Rightarrow> int \<Rightarrow> (string list) prog" where
  "redis_lrange k start stop =
     (\<lambda>w. case db w k of
        None \<Rightarrow> (Inr [], w)
      | Some (RList xs) \<Rightarrow> (Inr (list_range xs start stop), w)
      | Some (RString s) \<Rightarrow> (Inl ResponseError, w))"

definition redis_exists :: "string \<Rightarrow> nat prog" where
  "redis_exists k = (\<lambda>w. (Inr (if db w k = None then 0 else 1), w))"

definition redis_flushdb :: "unit prog" where
  "redis_flushdb = (\<lambda>w. (Inr (), w\<lparr>db := Map.empty\<rparr>))"

section \<open>The module \<^verbatim>\<open>exercise.py\<close>\<close>

text \<open>
  An object carries at most the attribute \<^verbatim>\<open>_redis\<close>, which is a client made by
  \<^verbatim>\<open>redis.Redis()\<close> or some other object (one that offers no Redis commands). A method
  is its \<^verbatim>\<open>__qualname__\<close> together with its body, which takes the instance, the
  positional and the keyword arguments.
\<close>

datatype pyobj = RedisClient | OtherObject

record pyinstance =
  redis_attr :: "pyobj option"

record pymethod =
  qualname :: string
  call :: "pyinstance \<Rightarrow> pyval list \<Rightarrow> (string \<times> pyval) list \<Rightarrow> pyval prog"

text \<open>\<^verbatim>\<open>self._redis\<close>: an AttributeError when the attribute is missing.\<close>

definition get_redis :: "pyinstance \<Rightarrow> pyobj prog" where
  "get_redis self = (case redis_attr self of None \<Rightarrow> raise AttributeError | Some r \<Rightarrow> ok r)"

definition isinstance_Redis :: "pyobj \<Rightarrow> bool" where
  "isinstance_Redis r = (r = RedisClient)"

text \<open>A Redis command invoked on an object: only a client has the command.\<close>

definition on_client :: "pyobj \<Rightarrow> 'a prog \<Rightarrow> 'a prog" where
  "on_client r cmd = (case r of RedisClient \<Rightarrow> cmd | OtherObject \<Rightarrow> raise AttributeError)"

subsection \<open>The decorators\<close>

text \<open>\<^verbatim>\<open>functools.wraps\<close> gives the wrapper the \<^verbatim>\<open>__qualname__\<close> of the wrapped method.\<close>

definition count_calls :: "pymethod \<Rightarrow> pymethod" where
  "count_calls method =
     \<lparr>qualname = qualname method,
      call = (\<lambda>self args kwargs.
        bnd (get_redis self) (\<lambda>r.
        bnd (if isinstance_Redis r
             then bnd (redis_incr (qualname method)) (\<lambda>_. ok ())
             else ok ()) (\<lambda>_.
        call method self args kwargs)))\<rparr>"

definition call_history :: "pymethod \<Rightarrow> pymethod" where
  "call_history method =
     \<lparr>qualname = qualname method,
      call = (\<lambda>self args kwargs.
        let key_in = qualname method @ '':inputs'';
            key_out = qualname method @ '':outputs''
        in
        bnd (get_redis self) (\<lambda>r.
        bnd (if isinstance_Redis r
             then bnd (redis_rpush key_in (PStr (str_tuple args))) (\<lambda>_. ok ())
             else ok ()) (\<lambda>_.
        bnd (call method self args kwargs) (\<lambda>output.
        bnd (get_redis self) (\<lambda>r'.
        bnd (if isinstance_Redis r'
             then bnd (redis_rpush key_out output) (\<lambda>_. ok ())
             else ok ()) (\<lambda>_.
        ok output))))))\<rparr>"

subsection \<open>The class \<^verbatim>\<open>Cache\<close>\<close>

definition Cache_init :: "pyinstance prog" where
  "Cache_init = bnd redis_flushdb (\<lambda>_. ok \<lparr>redis_attr = Some RedisClient\<rparr>)"

text \<open>
  The parameter \<^verbatim>\<open>data\<close> of \<^verbatim>\<open>store(self, data)\<close> is bound from one positional or one
  keyword argument; any other call is a TypeError.
\<close>

definition bind_data :: "pyval list \<Rightarrow> (string \<times> pyval) list \<Rightarrow> pyval prog" where
  "bind_data args kwargs =
     (case (args, kwargs) of
        ([data], []) \<Rightarrow> ok data
      | ([], [(name, data)]) \<Rightarrow> if name = ''data'' then ok data else raise TypeError
      | _ \<Rightarrow> raise TypeError)"

text \<open>The body of \<^verbatim>\<open>store\<close>, below its decorators.\<close>

definition store_body :: "pyinstance \<Rightarrow> pyval list \<Rightarrow> (string \<times> pyval) list \<Rightarrow> pyval prog" where
  "store_body self args kwargs =
     bnd (bind_data args kwargs) (\<lambda>data.
     bnd uuid4 (\<lambda>u.
     let key = uuid_str u in
     bnd (get_redis self) (\<lambda>r.
     bnd (on_client r (redis_set key data)) (\<lambda>_.
     ok (PStr key)))))"

definition store_method :: pymethod where
  "store_method = \<lparr>qualname = ''Cache.store'', call = store_body\<rparr>"

text \<open>\<^verbatim>\<open>@count_calls @call_history def store\<close>\<close>

definition Cache_store :: pymethod where
  "Cache_store = count_calls (call_history store_method)"

definition Cache_get ::
    "pyinstance \<Rightarrow> string \<Rightarrow> (pyval \<Rightarrow> pyerror + pyval) option \<Rightarrow> pyval prog" where
  "Cache_get self key fn =
     bnd (get_redis self) (\<lambda>r.
     bnd (on_client r (redis_get key)) (\<lambda>reply.
     let data = (case reply of None \<Rightarrow> PNone | Some b \<Rightarrow> PBytes b) in
     case fn of Some f \<Rightarrow> lift (f data) | None \<Rightarrow> ok data))"

definition Cache_get_str :: "pyinstance \<Rightarrow> string \<Rightarrow> pyval prog" where
  "Cache_get_str self key =
     bnd (Cache_get self key None) (\<lambda>data.
     if data = PNone then ok PNone else ok (PStr (py_str data)))"

text \<open>
  \<^verbatim>\<open>get_int\<close> is written at module level, not in the body of the class; it takes the
  instance as its first argument.
\<close>

definition get_int :: "pyinstance \<Rightarrow> string \<Rightarrow> pyval prog" where
  "get_int self key =
     bnd (Cache_get self key None) (\<lambda>data.
     if data = PNone then ok PNone
     else bnd (lift (py_int data)) (\<lambda>i. ok (PInt i)))"

text \<open>The names bound in the class body, and those bound in the module.\<close>

definition Cache_attributes :: "string list" where
  "Cache_attributes = [''__init__'', ''store'', ''get'', ''get_str'']"

definition module_functions :: "string list" where
  "module_functions = [''count_calls'', ''call_history'', ''get_int'', ''replay'']"

subsection \<open>\<^verbatim>\<open>replay\<close>\<close>

text \<open>
  What \<^verbatim>\<open>replay\<close> may be handed: \<^verbatim>\<open>None\<close>, a plain function (no \<^verbatim>\<open>__self__\<close>), or a
  method bound to an instance.
\<close>

datatype pycallable = NoneFn | PlainFunction string | BoundMethod pyinstance string

fun replay_loop :: "string \<Rightarrow> (string \<times> string) list \<Rightarrow> unit prog" where
  "replay_loop fxn_name [] w = (Inr (), w)"
| "replay_loop fxn_name ((fxn_input, fxn_output) # rest) w =
     (case py_decode fxn_input of
        Inl e \<Rightarrow> (Inl e, w)
      | Inr i \<Rightarrow>
          (case py_decode fxn_output of
             Inl e \<Rightarrow> (Inl e, w)
           | Inr out \<Rightarrow>
               replay_loop fxn_name rest
                 (w\<lparr>stdout := stdout w @ [fxn_name @ ''(*'' @ i @ '') -> '' @ out]\<rparr>)))"

text \<open>
  The counter as \<^verbatim>\<open>replay\<close> reads it:
  \<^verbatim>\<open>fxn_call_count = 0\<close>, then, if the key exists,
  \<^verbatim>\<open>fxn_call_count = int(redis_store.get(fxn_name) or 0)\<close>.
\<close>

definition read_call_count :: "string \<Rightarrow> int prog" where
  "read_call_count fxn_name =
     bnd (redis_exists fxn_name) (\<lambda>present.
     if present \<noteq> 0
     then bnd (redis_get fxn_name) (\<lambda>reply.
          lift (py_int (case reply of
                          None \<Rightarrow> PInt 0
                        | Some b \<Rightarrow> if b = [] then PInt 0 else PBytes b)))
     else ok 0)"

text \<open>The body of \<^verbatim>\<open>replay\<close> once the two guards have let the call through.\<close>

definition replay_bound :: "string \<Rightarrow> unit prog" where
  "replay_bound fxn_name =
     (let in_key = fxn_name @ '':inputs'';
          out_key = fxn_name @ '':outputs''
      in
      bnd (read_call_count fxn_name) (\<lambda>fxn_call_count.
      bnd (print (fxn_name @ '' was called '' @ str_int fxn_call_count @ '' times:'')) (\<lambda>_.
      bnd (redis_lrange in_key 0 (- 1)) (\<lambda>fxn_inputs.
      bnd (redis_lrange out_key 0 (- 1)) (\<lambda>fxn_outputs.
      replay_loop fxn_name (zip fxn_inputs fxn_outputs))))))"

definition replay :: "pycallable \<Rightarrow> unit prog" where
  "replay fn =
     (case fn of
        NoneFn \<Rightarrow> ok ()
      | PlainFunction name \<Rightarrow> ok ()
      | BoundMethod self fxn_name \<Rightarrow>
          if redis_attr self \<noteq> Some RedisClient then ok () else replay_bound fxn_name)"

subsection \<open>Sequences of calls\<close>

text \<open>
  \<open>run_calls\<close> makes the calls one after the other and stops at the first failure, as a
  script does; \<open>attempt_calls\<close> goes on after a failure, as a caller that catches the
  exception does, and gives the world at the end.
\<close>

fun run_calls ::
    "pymethod \<Rightarrow> pyinstance \<Rightarrow> (pyval list \<times> (string \<times> pyval) list) list \<Rightarrow> (pyval list) prog" where
  "run_calls m self [] w = (Inr [], w)"
| "run_calls m self ((args, kwargs) # rest) w =
     (case call m self args kwargs w of
        (Inl e, w') \<Rightarrow> (Inl e, w')
      | (Inr out, w') \<Rightarrow>
          (case run_calls m self rest w' of
             (Inl e, w'') \<Rightarrow> (Inl e, w'')
           | (Inr outs, w'') \<Rightarrow> (Inr (out # outs), w'')))"

fun attempt_calls ::
    "pymethod \<Rightarrow> pyinstance \<Rightarrow> (pyval list \<times> (string \<times> pyval) list) list \<Rightarrow> world \<Rightarrow> world" where
  "attempt_calls m self [] w = w"
| "attempt_calls m self ((args, kwargs) # rest) w =
     attempt_calls m self rest (snd (call m self args kwargs w))"

subsection \<open>Transforms handed to \<^verbatim>\<open>get\<close>\<close>

text \<open>\<^verbatim>\<open>fn=int\<close>, and \<^verbatim>\<open>fn=lambda d: d.decode("utf-8")\<close> (only bytes have \<^verbatim>\<open>decode\<close>).\<close>

definition fn_int :: "pyval \<Rightarrow> pyerror + pyval" where
  "fn_int d = (case py_int d of Inl e \<Rightarrow> Inl e | Inr i \<Rightarrow> Inr (PInt i))"

definition fn_decode :: "pyval \<Rightarrow> pyerror + pyval" where
  "fn_decode d =
     (case d of
        PBytes b \<Rightarrow> (case py_decode b of Inl e \<Rightarrow> Inl e | Inr s \<Rightarrow> Inr (PStr s))
      | _ \<Rightarrow> Inl AttributeError)"

section \<open>Reading the instrumentation data\<close>

text \<open>
  The entries of a log as \<^verbatim>\<open>LRANGE key 0 -1\<close> gives them (a missing key is the empty
  log), the value of a counter as \<^verbatim>\<open>INCR\<close> reads it (a missing key counts as 0), and
  the value of a counter as \<^verbatim>\<open>replay\<close> reads it.
\<close>

definition log_entries :: "rvalue option \<Rightarrow> string list option" where
  "log_entries v =
     (case v of None \<Rightarrow> Some [] | Some (RList xs) \<Rightarrow> Some xs | Some (RString s) \<Rightarrow> None)"

definition stored_count :: "rvalue option \<Rightarrow> int option" where
  "stored_count v =
     (case v of None \<Rightarrow> Some 0 | Some (RString b) \<Rightarrow> string2ll b | Some (RList xs) \<Rightarrow> None)"

definition shown_count :: "rvalue option \<Rightarrow> int option" where
  "shown_count v =
     (case v of
        None \<Rightarrow> Some 0
      | Some (RString b) \<Rightarrow> if b = [] then Some 0 else parse_int b
      | Some (RList xs) \<Rightarrow> None)"

definition replay_line :: "string \<Rightarrow> string \<times> string \<Rightarrow> string" where
  "replay_line fxn_name p = fxn_name @ ''(*'' @ fst p @ '') -> '' @ snd p"

abbreviation dec_step :: "nat \<Rightarrow> char \<Rightarrow> nat" where
  "dec_step \<equiv> (\<lambda>a c. 10 * a + digit_val c)"

text \<open>A computation keeps a key when it leaves the value under that key as it found it.\<close>

definition keeps :: "string \<Rightarrow> 'a prog \<Rightarrow> bool" where
  "keeps k m = (\<forall>w. db (snd (m w)) k = db w k)"

section \<open>A scenario\<close>

text \<open>
  An empty database, an entropy source that yields 0, 1, 2, ..., nothing printed yet; an
  instance as \<^verbatim>\<open>Cache()\<close> makes it, and an object whose \<^verbatim>\<open>_redis\<close> is no client. The
  first two identifiers that \<^verbatim>\<open>uuid4\<close> draws from that source are \<open>key1\<close> and \<open>key2\<close>.
\<close>

definition world0 :: world where
  "world0 = \<lparr>db = Map.empty, urandom = siterate (\<lambda>r. r + 1) 0, stdout = []\<rparr>"

definition cache :: pyinstance where
  "cache = \<lparr>redis_attr = Some RedisClient\<rparr>"

definition stranger :: pyinstance where
  "stranger = \<lparr>redis_attr = Some OtherObject\<rparr>"

definition key1 :: string where
  "key1 = ''00000000-0000-4000-8000-000000000000''"

definition key2 :: string where
  "key2 = ''00000000-0000-4000-8000-000000000001''"

text \<open>A method that returns a byte string which is not UTF-8, and one that returns 42.\<close>

definition blob_method :: pymethod where
  "blob_method = \<lparr>qualname = ''Blob.make'', call = (\<lambda>self args kwargs. ok (PBytes [CHR 0xFF]))\<rparr>"

definition answer_method :: pymethod where
  "answer_method = \<lparr>qualname = ''Deep.thought'', call = (\<lambda>self args kwargs. ok (PInt 42))\<rparr>"

text \<open>The world after \<^verbatim>\<open>store("foo")\<close>, and after \<^verbatim>\<open>store("bar")\<close> as well.\<close>

definition world1 :: world where
  "world1 = world0\<lparr>db := [''Cache.store'' \<mapsto> RString (str_int 1),
                     ''Cache.store:inputs'' \<mapsto> RList [str_tuple [PStr ''foo'']],
                     key1 \<mapsto> RString ''foo'',
                     ''Cache.store:outputs'' \<mapsto> RList [key1]],
              urandom := siterate (\<lambda>r. r + 1) 1\<rparr>"

definition world2 :: world where
  "world2 = world0\<lparr>db := [''Cache.store'' \<mapsto> RString (str_int 2),
                     ''Cache.store:inputs'' \<mapsto> RList [str_tuple [PStr ''foo''], str_tuple [PStr ''bar'']],
                     key1 \<mapsto> RString ''foo'',
                     key2 \<mapsto> RString ''bar'',
                     ''Cache.store:outputs'' \<mapsto> RList [key1, key2]],
              urandom := siterate (\<lambda>r. r + 1) 2\<rparr>"

text \<open>
  The world after \<^verbatim>\<open>store("foo")\<close> and then a failed \<^verbatim>\<open>store(None)\<close>: two inputs, one
  output. And the world after one call of the history-wrapped \<open>blob_method\<close>.
\<close>

definition world_torn :: world where
  "world_torn = world0\<lparr>db := [''Cache.store'' \<mapsto> RString (str_int 2),
                     ''Cache.store:inputs'' \<mapsto> RList [str_tuple [PStr ''foo''], str_tuple [PNone]],
                     key1 \<mapsto> RString ''foo'',
                     ''Cache.store:outputs'' \<mapsto> RList [key1]],
              urandom := siterate (\<lambda>r. r + 1) 2\<rparr>"

definition world_blob :: world where
  "world_blob = world0\<lparr>db := [''Blob.make:inputs'' \<mapsto> RList [str_tuple [PInt 1]],
                     ''Blob.make:outputs'' \<mapsto> RList [[CHR 0xFF]]]\<rparr>"

text \<open>A computation only prints when the world it leaves differs at most in what was printed.\<close>

definition only_prints :: "'a prog \<Rightarrow> bool" where
  "only_prints m = (\<forall>w. \<exists>out. snd (m w) = w\<lparr>stdout := out\<rparr>)"

text \<open>The world after \<^verbatim>\<open>store(1.5)\<close>; the float 1.5 has the bit pattern \<open>0x3FF8000000000000\<close>.\<close>

definition world_float :: world where
  "world_float = world0\<lparr>db := [''Cache.store'' \<mapsto> RString (str_int 1),
                     ''Cache.store:inputs'' \<mapsto> RList [str_tuple [PFloat 0x3FF8000000000000]],
                     key1 \<mapsto> RString (float_repr 0x3FF8000000000000),
                     ''Cache.store:outputs'' \<mapsto> RList [key1]],
              urandom := siterate (\<lambda>r. r + 1) 1\<rparr>"

section \<open>Auxiliary facts\<close>

lemma digit_cases: "d < 10 \<Longrightarrow> d = 0 \<or> d = 1 \<or> d = 2 \<or> d = 3 \<or> d = 4 \<or> d = 5 \<or> d = 6 \<or> d = 7 \<or> d = 8 \<or> d = (9::nat)"
  by arith

lemma digit_char_props:
  assumes "d < 10"
  shows "is_digit (digit_char d)" and "digit_val (digit_char d) = d"
    and "\<not> is_space (digit_char d)" and "digit_char d \<noteq> CHR ''-''"
    and "digit_char d \<noteq> CHR ''+''" and "(digit_char d = CHR ''0'') = (d = 0)"
  using digit_cases [OF assms]
  by (auto simp: digit_char_def is_digit_def digit_val_def is_space_def)

lemma str_nat_digits: "list_all is_digit (str_nat n)"
proof (induction n rule: str_nat.induct)
  case (1 n)
  show ?case
  proof (cases "n < 10")
    case True
    then show ?thesis by (subst str_nat.simps) (simp add: digit_char_props)
  next
    case False
    with 1 show ?thesis by (subst str_nat.simps) (simp add: digit_char_props)
  qed
qed

lemma str_nat_value: "foldl dec_step 0 (str_nat n) = n"
proof (induction n rule: str_nat.induct)
  case (1 n)
  show ?case
  proof (cases "n < 10")
    case True
    then show ?thesis by (subst str_nat.simps) (simp add: digit_char_props)
  next
    case False
    with 1 have "foldl dec_step 0 (str_nat (n div 10)) = n div 10" by simp
    with False show ?thesis
      by (subst str_nat.simps) (simp add: digit_char_props)
  qed
qed

lemma str_nat_nonempty: "str_nat n \<noteq> []"
  by (subst str_nat.simps) simp

lemma str_nat_hd_zero: "(hd (str_nat n) = CHR ''0'') = (n = 0)"
proof (induction n rule: str_nat.induct)
  case (1 n)
  show ?case
  proof (cases "n < 10")
    case True
    then show ?thesis by (subst str_nat.simps) (simp add: digit_char_props)
  next
    case False
    then have "n div 10 \<noteq> 0" by simp
    with False 1 show ?thesis
      by (subst str_nat.simps) (simp add: str_nat_nonempty)
  qed
qed

lemma ll_digits_all: "list_all is_digit xs \<Longrightarrow> ll_digits acc xs = Some (foldl dec_step acc xs)"
  by (induction xs arbitrary: acc) simp_all

lemma digits_value_all: "list_all is_digit xs \<Longrightarrow> digits_value acc xs = Some (foldl dec_step acc xs)"
  by (induction acc xs rule: digits_value.induct) simp_all

lemma ll_positive_str_nat: "0 < n \<Longrightarrow> ll_positive (str_nat n) = Some n"
proof -
  assume pos: "0 < n"
  obtain c cs where s: "str_nat n = c # cs"
    using str_nat_nonempty [of n] by (cases "str_nat n") auto
  have dig: "is_digit c" "list_all is_digit cs"
    using str_nat_digits [of n] s by simp_all
  have nz: "c \<noteq> CHR ''0''"
    using str_nat_hd_zero [of n] s pos by simp
  have "foldl dec_step (digit_val c) cs = n"
    using str_nat_value [of n] s by simp
  then show ?thesis
    using dig nz s by (simp add: ll_positive_def ll_digits_all)
qed

lemma parse_nat_str_nat: "parse_nat (str_nat n) = Some n"
proof -
  obtain c cs where s: "str_nat n = c # cs"
    using str_nat_nonempty [of n] by (cases "str_nat n") auto
  have dig: "is_digit c" "list_all is_digit cs"
    using str_nat_digits [of n] s by simp_all
  have "foldl dec_step (digit_val c) cs = n"
    using str_nat_value [of n] s by simp
  then show ?thesis
    using dig s by (simp add: parse_nat_def digits_value_all)
qed

lemma str_nat_zero: "str_nat 0 = ''0''"
  by (subst str_nat.simps) (simp add: digit_char_def)

lemma string2ll_str_int: "string2ll (str_int i) = Some i"
proof (cases "i < 0")
  case True
  then have "0 < nat (- i)" by simp
  then show ?thesis
    using True by (simp add: string2ll_def str_int_def ll_positive_str_nat)
next
  case False
  show ?thesis
  proof (cases "i = 0")
    case True
    then show ?thesis by (simp add: string2ll_def str_int_def str_nat_zero)
  next
    case nz: False
    with False have pos: "0 < nat i" by simp
    obtain c cs where s: "str_nat (nat i) = c # cs"
      using str_nat_nonempty [of "nat i"] by (cases "str_nat (nat i)") auto
    have "is_digit c" using str_nat_digits [of "nat i"] s by simp
    then have c1: "c \<noteq> CHR ''-''" by (auto simp: is_digit_def)
    have c2: "c \<noteq> CHR ''0''" using str_nat_hd_zero [of "nat i"] s pos by simp
    show ?thesis
      using False pos c1 c2 s ll_positive_str_nat [OF pos]
      by (simp add: string2ll_def str_int_def)
  qed
qed

lemma strip_id: "list_all (\<lambda>c. \<not> is_space c) s \<Longrightarrow> strip s = s"
proof -
  assume a: "list_all (\<lambda>c. \<not> is_space c) s"
  then have 1: "dropWhile is_space s = s"
    by (cases s) simp_all
  from a have "list_all (\<lambda>c. \<not> is_space c) (rev s)" by (simp add: list_all_iff)
  then have 2: "dropWhile is_space (rev s) = rev s"
    by (cases "rev s") simp_all
  show ?thesis by (simp add: strip_def 1 2)
qed

lemma digit_not_space: "is_digit c \<Longrightarrow> \<not> is_space c"
  by (auto simp: is_digit_def is_space_def)

lemma str_nat_no_space: "list_all (\<lambda>c. \<not> is_space c) (str_nat n)"
  using str_nat_digits [of n] by (auto simp: list_all_iff digit_not_space)

lemma parse_int_str_int: "parse_int (str_int i) = Some i"
proof (cases "i < 0")
  case True
  have "list_all (\<lambda>c. \<not> is_space c) (CHR ''-'' # str_nat (nat (- i)))"
    using str_nat_no_space by (simp add: is_space_def)
  then have "strip (CHR ''-'' # str_nat (nat (- i))) = CHR ''-'' # str_nat (nat (- i))"
    by (rule strip_id)
  then show ?thesis
    using True by (simp add: parse_int_def str_int_def parse_nat_str_nat)
next
  case False
  obtain c cs where s: "str_nat (nat i) = c # cs"
    using str_nat_nonempty [of "nat i"] by (cases "str_nat (nat i)") auto
  have "is_digit c" using str_nat_digits [of "nat i"] s by simp
  then have c1: "c \<noteq> CHR ''-''" "c \<noteq> CHR ''+''" by (auto simp: is_digit_def)
  have "strip (str_nat (nat i)) = str_nat (nat i)"
    using str_nat_no_space by (rule strip_id)
  then show ?thesis
    using False c1 s parse_nat_str_nat [of "nat i"]
    by (simp add: parse_int_def str_int_def)
qed

lemma length_hex_fixed: "length (hex_fixed k n) = k"
  by (induction k arbitrary: n) simp_all

lemma length_uuid_str: "length (uuid_str u) = 36"
  by (simp add: uuid_str_def Let_def length_hex_fixed)

lemma bnd_apply: "bnd m f w = (case m w of (Inl e, w') \<Rightarrow> (Inl e, w') | (Inr x, w') \<Rightarrow> f x w')"
  by (simp add: bnd_def)

lemma bnd_Inr: "m w = (Inr x, w') \<Longrightarrow> bnd m f w = f x w'"
  by (simp add: bnd_def)

lemma bnd_Inl: "m w = (Inl e, w') \<Longrightarrow> bnd m f w = (Inl e, w')"
  by (simp add: bnd_def)

lemma ok_apply: "ok x w = (Inr x, w)"
  by (simp add: ok_def)

lemma raise_apply: "raise e w = (Inl e, w)"
  by (simp add: raise_def)

lemma bnd_ok: "bnd (ok x) f = f x"
  by (simp add: bnd_def ok_def)

lemma bnd_raise: "bnd (raise e) f = raise e"
  by (simp add: bnd_def raise_def)

lemma bnd_unit: "bnd (bnd m (\<lambda>_. ok ())) (\<lambda>_. g) = bnd m (\<lambda>_. g)"
  by (auto simp: bnd_def ok_def fun_eq_iff split: prod.splits sum.splits)

lemma get_redis_client: "redis_attr self = Some r \<Longrightarrow> get_redis self = ok r"
  by (simp add: get_redis_def)

lemma count_calls_client:
  assumes "redis_attr self = Some RedisClient"
  shows "call (count_calls m) self args kwargs =
           bnd (redis_incr (qualname m)) (\<lambda>_. call m self args kwargs)"
  using assms
  by (simp add: count_calls_def get_redis_client bnd_ok isinstance_Redis_def bnd_unit)

lemma call_history_client:
  assumes "redis_attr self = Some RedisClient"
  shows "call (call_history m) self args kwargs =
           bnd (redis_rpush (qualname m @ '':inputs'') (PStr (str_tuple args))) (\<lambda>_.
           bnd (call m self args kwargs) (\<lambda>output.
           bnd (redis_rpush (qualname m @ '':outputs'') output) (\<lambda>_. ok output)))"
  using assms
  by (simp add: call_history_def Let_def get_redis_client bnd_ok isinstance_Redis_def bnd_unit)

lemma store_body_client:
  assumes "redis_attr self = Some RedisClient"
  shows "store_body self args kwargs =
           bnd (bind_data args kwargs) (\<lambda>data.
           bnd uuid4 (\<lambda>u.
           bnd (redis_set (uuid_str u) data) (\<lambda>_. ok (PStr (uuid_str u)))))"
  using assms
  by (simp add: store_body_def Let_def get_redis_client bnd_ok on_client_def)

lemma qualname_count_calls: "qualname (count_calls m) = qualname m"
  by (simp add: count_calls_def)

lemma qualname_call_history: "qualname (call_history m) = qualname m"
  by (simp add: call_history_def)

lemma wrappers_other:
  assumes "redis_attr self = Some OtherObject"
  shows "call (count_calls m) self args kwargs w = call m self args kwargs w \<and>
         call (call_history m) self args kwargs w = call m self args kwargs w"
proof -
  have g: "get_redis self = ok OtherObject"
    using assms by (rule get_redis_client)
  have "call (count_calls m) self args kwargs = call m self args kwargs"
    by (simp add: count_calls_def g bnd_ok isinstance_Redis_def)
  moreover have "call (call_history m) self args kwargs w = call m self args kwargs w"
    by (simp add: call_history_def Let_def g bnd_ok isinstance_Redis_def bnd_apply ok_apply
        split: prod.splits sum.splits)
  ultimately show ?thesis by simp
qed

lemma keepsD: "keeps k m \<Longrightarrow> m w = (r, w') \<Longrightarrow> db w' k = db w k"
  by (auto simp: keeps_def dest: spec [of _ w])

lemma keeps_ok: "keeps k (ok x)"
  by (simp add: keeps_def ok_def)

lemma keeps_raise: "keeps k (raise e)"
  by (simp add: keeps_def raise_def)

lemma keeps_bnd: "keeps k m \<Longrightarrow> (\<And>x. keeps k (f x)) \<Longrightarrow> keeps k (bnd m f)"
  unfolding keeps_def bnd_def
proof (intro allI)
  fix w
  assume m: "\<forall>w. db (snd (m w)) k = db w k" and f: "\<And>x. \<forall>w. db (snd (f x w)) k = db w k"
  obtain r w' where mw: "m w = (r, w')" by (cases "m w")
  have 1: "db w' k = db w k" using m mw by (metis snd_conv)
  show "db (snd (case m w of (Inl e, w') \<Rightarrow> (Inl e, w') | (Inr x, w') \<Rightarrow> f x w')) k = db w k"
  proof (cases r)
    case (Inl e)
    then show ?thesis using mw 1 by simp
  next
    case (Inr x)
    then show ?thesis using mw 1 f [of x] by simp
  qed
qed

lemma keeps_incr: "k' \<noteq> k \<Longrightarrow> keeps k' (redis_incr k)"
  by (auto simp: keeps_def redis_incr_def split: option.splits rvalue.splits)

lemma keeps_rpush: "k' \<noteq> k \<Longrightarrow> keeps k' (redis_rpush k v)"
  by (auto simp: keeps_def redis_rpush_def raise_def split: option.splits rvalue.splits sum.splits)

lemma keeps_set: "k' \<noteq> k \<Longrightarrow> keeps k' (redis_set k v)"
  by (auto simp: keeps_def redis_set_def raise_def split: sum.splits)

lemma keeps_uuid4: "keeps k uuid4"
  by (simp add: keeps_def uuid4_def)

lemma keeps_get_redis: "keeps k (get_redis self)"
  by (simp add: get_redis_def keeps_ok keeps_raise split: option.splits)

lemma keeps_bind_data: "keeps k (bind_data args kwargs)"
  by (simp add: bind_data_def keeps_ok keeps_raise split: list.splits prod.splits)

lemma keeps_on_client: "keeps k cmd \<Longrightarrow> keeps k (on_client r cmd)"
  by (simp add: on_client_def keeps_raise split: pyobj.splits)

lemma uuid_str_neq: "length k \<noteq> 36 \<Longrightarrow> k \<noteq> uuid_str u"
  using length_uuid_str [of u] by auto

lemma keeps_store_body: "length k \<noteq> 36 \<Longrightarrow> keeps k (store_body self args kwargs)"
  unfolding store_body_def Let_def
  by (intro keeps_bnd keeps_bind_data keeps_uuid4 keeps_get_redis keeps_on_client keeps_set
      keeps_ok uuid_str_neq)

lemma keeps_history_store:
  assumes "redis_attr self = Some RedisClient"
    and "k \<noteq> ''Cache.store:inputs''" and "k \<noteq> ''Cache.store:outputs''" and "length k \<noteq> 36"
  shows "keeps k (call (call_history store_method) self args kwargs)"
  unfolding call_history_client [OF assms(1)]
  using assms(2-4)
  by (intro keeps_bnd keeps_rpush keeps_ok) (simp_all add: store_method_def keeps_store_body)

lemma redis_incr_stored:
  "stored_count (db w k) = Some n \<Longrightarrow>
   redis_incr k w = (Inr (n + 1), w\<lparr>db := (db w)(k \<mapsto> RString (str_int (n + 1)))\<rparr>)"
  by (auto simp: stored_count_def redis_incr_def split: option.splits rvalue.splits)

lemma redis_incr_fail:
  "stored_count (db w k) = None \<Longrightarrow> redis_incr k w = (Inl ResponseError, w)"
  by (auto simp: stored_count_def redis_incr_def split: option.splits rvalue.splits)

lemma redis_rpush_log:
  "redis_encode v = Inr b \<Longrightarrow> log_entries (db w k) = Some xs \<Longrightarrow>
   redis_rpush k v w = (Inr (length xs + 1), w\<lparr>db := (db w)(k \<mapsto> RList (xs @ [b]))\<rparr>)"
  by (auto simp: log_entries_def redis_rpush_def split: option.splits rvalue.splits)

lemma redis_rpush_fail:
  "redis_encode v = Inl e \<Longrightarrow> redis_rpush k v w = (Inl e, w)"
  "redis_encode v = Inr b \<Longrightarrow> log_entries (db w k) = None \<Longrightarrow>
   redis_rpush k v w = (Inl ResponseError, w)"
  by (auto simp: log_entries_def redis_rpush_def raise_def split: option.splits rvalue.splits)

lemma list_range_all: "list_range xs 0 (- 1) = xs"
  by (cases xs) (simp_all add: list_range_def Let_def)

lemma redis_lrange_all:
  "log_entries (db w k) = Some xs \<Longrightarrow> redis_lrange k 0 (- 1) w = (Inr xs, w)"
  by (auto simp: log_entries_def redis_lrange_def list_range_all split: option.splits rvalue.splits)

lemma redis_lrange_fail:
  "log_entries (db w k) = None \<Longrightarrow> redis_lrange k 0 (- 1) w = (Inl ResponseError, w)"
  by (auto simp: log_entries_def redis_lrange_def split: option.splits rvalue.splits)

lemma bnd_InrE:
  assumes "bnd m f w = (Inr y, w'')"
  obtains x w' where "m w = (Inr x, w')" and "f x w' = (Inr y, w'')"
  using assms by (auto simp: bnd_def split: prod.splits sum.splits)

lemma bnd_InlE:
  assumes "bnd m f w = (Inl e, w'')"
  obtains "m w = (Inl e, w'')" | x w' where "m w = (Inr x, w')" and "f x w' = (Inl e, w'')"
  using assms by (auto simp: bnd_def split: prod.splits sum.splits)

lemma bind_data_InrE:
  assumes "bind_data args kwargs w = (Inr data, w')"
  shows "bind_data args kwargs = ok data \<and> w' = w"
  using assms
  by (auto simp: bind_data_def ok_def raise_def split: list.splits prod.splits if_splits)

lemma store_body_InrE:
  assumes "redis_attr self = Some RedisClient"
    and "store_body self args kwargs w = (Inr out, w')"
  obtains key b data where "length key = 36" and "out = PStr key"
    and "bind_data args kwargs = ok data" and "redis_encode data = Inr b"
    and "key = uuid_str (uuid4_int (shd (urandom w)))"
    and "w' = w\<lparr>db := (db w)(key \<mapsto> RString b), urandom := stl (urandom w)\<rparr>"
proof -
  from assms(2) obtain data w1 where 1: "bind_data args kwargs w = (Inr data, w1)"
    and 2: "bnd uuid4 (\<lambda>u. bnd (redis_set (uuid_str u) data)
              (\<lambda>_. ok (PStr (uuid_str u)))) w1 = (Inr out, w')"
    unfolding store_body_client [OF assms(1)] by (erule bnd_InrE)
  from 1 have bd: "bind_data args kwargs = ok data" and w1: "w1 = w"
    using bind_data_InrE by blast+
  define key where "key = uuid_str (uuid4_int (shd (urandom w)))"
  from 2 obtain b where "redis_encode data = Inr b" and "out = PStr key"
    and "w' = w\<lparr>db := (db w)(key \<mapsto> RString b), urandom := stl (urandom w)\<rparr>"
    unfolding w1 key_def
    by (auto simp: bnd_def uuid4_def redis_set_def ok_def raise_def split: sum.splits)
  moreover have "length key = 36" by (simp add: key_def length_uuid_str)
  ultimately show ?thesis using that bd key_def by blast
qed

lemma Cache_store_layers:
  assumes "redis_attr self = Some RedisClient"
  shows "call Cache_store self args kwargs =
           bnd (redis_incr ''Cache.store'') (\<lambda>_.
           bnd (redis_rpush ''Cache.store:inputs'' (PStr (str_tuple args))) (\<lambda>_.
           bnd (store_body self args kwargs) (\<lambda>output.
           bnd (redis_rpush ''Cache.store:outputs'' output) (\<lambda>_. ok output))))"
  by (simp add: Cache_store_def count_calls_client [OF assms] call_history_client [OF assms]
      qualname_call_history store_method_def)

lemma incr_log_entries:
  assumes "redis_incr k w = (r, w')" and "k' \<noteq> k"
  shows "db w' k' = db w k'"
  using keepsD [OF keeps_incr assms(1)] assms(2) by blast

lemma Cache_store_step:
  assumes client: "redis_attr self = Some RedisClient"
    and run: "call Cache_store self args kwargs w = (Inr out, w')"
    and ins: "log_entries (db w ''Cache.store:inputs'') = Some ins"
    and outs: "log_entries (db w ''Cache.store:outputs'') = Some outs"
  shows "\<exists>key. out = PStr key \<and>
           log_entries (db w' ''Cache.store:inputs'') = Some (ins @ [str_tuple args]) \<and>
           log_entries (db w' ''Cache.store:outputs'') = Some (outs @ [key])"
proof -
  from run obtain n w1 where s1: "redis_incr ''Cache.store'' w = (Inr n, w1)"
    and r1: "bnd (redis_rpush ''Cache.store:inputs'' (PStr (str_tuple args))) (\<lambda>_.
             bnd (store_body self args kwargs) (\<lambda>output.
             bnd (redis_rpush ''Cache.store:outputs'' output) (\<lambda>_. ok output))) w1 = (Inr out, w')"
    unfolding Cache_store_layers [OF client] by (erule bnd_InrE)
  have in1: "db w1 ''Cache.store:inputs'' = db w ''Cache.store:inputs''"
    and out1: "db w1 ''Cache.store:outputs'' = db w ''Cache.store:outputs''"
    using incr_log_entries [OF s1] by simp_all
  from r1 obtain m w2 where s2: "redis_rpush ''Cache.store:inputs'' (PStr (str_tuple args)) w1 = (Inr m, w2)"
    and r2: "bnd (store_body self args kwargs) (\<lambda>output.
             bnd (redis_rpush ''Cache.store:outputs'' output) (\<lambda>_. ok output)) w2 = (Inr out, w')"
    by (erule bnd_InrE)
  have "redis_rpush ''Cache.store:inputs'' (PStr (str_tuple args)) w1 =
          (Inr (length ins + 1),
           w1\<lparr>db := (db w1)(''Cache.store:inputs'' \<mapsto> RList (ins @ [str_tuple args]))\<rparr>)"
    by (rule redis_rpush_log) (simp_all add: redis_encode_def in1 ins)
  with s2 have w2: "w2 = w1\<lparr>db := (db w1)(''Cache.store:inputs'' \<mapsto> RList (ins @ [str_tuple args]))\<rparr>"
    by simp
  from r2 obtain o3 w3 where s3: "store_body self args kwargs w2 = (Inr o3, w3)"
    and r3: "bnd (redis_rpush ''Cache.store:outputs'' o3) (\<lambda>_. ok o3) w3 = (Inr out, w')"
    by (erule bnd_InrE)
  from store_body_InrE [OF client s3] obtain key b
    where len: "length key = 36" and o3: "o3 = PStr key"
      and w3: "w3 = w2\<lparr>db := (db w2)(key \<mapsto> RString b), urandom := stl (urandom w2)\<rparr>"
    by metis
  have kin: "key \<noteq> ''Cache.store:inputs''" and kout: "key \<noteq> ''Cache.store:outputs''"
    using len by auto
  have out3: "log_entries (db w3 ''Cache.store:outputs'') = Some outs"
    using kout by (simp add: w3 w2 out1 outs)
  from r3 obtain m4 w4 where s4: "redis_rpush ''Cache.store:outputs'' o3 w3 = (Inr m4, w4)"
    and r4: "ok o3 w4 = (Inr out, w')"
    by (erule bnd_InrE)
  have "redis_rpush ''Cache.store:outputs'' o3 w3 =
          (Inr (length outs + 1), w3\<lparr>db := (db w3)(''Cache.store:outputs'' \<mapsto> RList (outs @ [key]))\<rparr>)"
    by (rule redis_rpush_log) (simp_all add: redis_encode_def o3 out3)
  with s4 have w4: "w4 = w3\<lparr>db := (db w3)(''Cache.store:outputs'' \<mapsto> RList (outs @ [key]))\<rparr>"
    by simp
  from r4 have fin: "out = o3" "w' = w4" by (simp_all add: ok_def)
  have "log_entries (db w' ''Cache.store:inputs'') = Some (ins @ [str_tuple args])"
    using kin by (simp add: fin w4 w3 w2 log_entries_def)
  moreover have "log_entries (db w' ''Cache.store:outputs'') = Some (outs @ [key])"
    by (simp add: fin w4 log_entries_def)
  ultimately show ?thesis using fin o3 by simp
qed

lemma run_calls_logs:
  assumes client: "redis_attr self = Some RedisClient"
  shows "run_calls Cache_store self calls w = (Inr results, w') \<Longrightarrow>
         log_entries (db w ''Cache.store:inputs'') = Some ins \<Longrightarrow>
         log_entries (db w ''Cache.store:outputs'') = Some outs \<Longrightarrow>
         \<exists>keys. results = map PStr keys \<and> length keys = length calls \<and>
           log_entries (db w' ''Cache.store:inputs'') = Some (ins @ map (\<lambda>c. str_tuple (fst c)) calls) \<and>
           log_entries (db w' ''Cache.store:outputs'') = Some (outs @ keys)"
proof (induction calls arbitrary: w results ins outs)
  case Nil
  then show ?case by simp
next
  case (Cons c calls)
  obtain args kwargs where c: "c = (args, kwargs)" by (cases c)
  from Cons.prems(1) obtain out w1 rest
    where first: "call Cache_store self args kwargs w = (Inr out, w1)"
      and more: "run_calls Cache_store self calls w1 = (Inr rest, w')"
      and res: "results = out # rest"
    by (auto simp: c split: prod.splits sum.splits)
  from Cache_store_step [OF client first Cons.prems(2) Cons.prems(3)]
  obtain key where key: "out = PStr key"
    and i1: "log_entries (db w1 ''Cache.store:inputs'') = Some (ins @ [str_tuple args])"
    and o1: "log_entries (db w1 ''Cache.store:outputs'') = Some (outs @ [key])"
    by blast
  from Cons.IH [OF more i1 o1] obtain keys where
    "rest = map PStr keys" "length keys = length calls"
    "log_entries (db w' ''Cache.store:inputs'') =
       Some ((ins @ [str_tuple args]) @ map (\<lambda>c. str_tuple (fst c)) calls)"
    "log_entries (db w' ''Cache.store:outputs'') = Some ((outs @ [key]) @ keys)"
    by blast
  then show ?case
    by (intro exI [of _ "key # keys"]) (simp add: res key c)
qed

lemma Cache_store_counts:
  assumes client: "redis_attr self = Some RedisClient"
    and cnt: "stored_count (db w ''Cache.store'') = Some c"
  shows "stored_count (db (snd (call Cache_store self args kwargs w)) ''Cache.store'') = Some (c + 1)"
proof -
  let ?w1 = "w\<lparr>db := (db w)(''Cache.store'' \<mapsto> RString (str_int (c + 1)))\<rparr>"
  let ?inner = "call (call_history store_method) self args kwargs"
  have "redis_incr ''Cache.store'' w = (Inr (c + 1), ?w1)"
    using cnt by (rule redis_incr_stored)
  then have "call Cache_store self args kwargs w = ?inner ?w1"
    by (simp add: Cache_store_def count_calls_client [OF client] qualname_call_history
        store_method_def bnd_apply)
  moreover have "keeps ''Cache.store'' ?inner"
    by (rule keeps_history_store [OF client]) simp_all
  then have "db (snd (?inner ?w1)) ''Cache.store'' = db ?w1 ''Cache.store''"
    by (simp add: keeps_def)
  ultimately show ?thesis
    by (simp add: stored_count_def string2ll_str_int)
qed

lemma attempt_calls_counts:
  assumes client: "redis_attr self = Some RedisClient"
  shows "stored_count (db w ''Cache.store'') = Some c \<Longrightarrow>
         stored_count (db (attempt_calls Cache_store self calls w) ''Cache.store'') =
           Some (c + int (length calls))"
proof (induction calls arbitrary: w c)
  case Nil
  then show ?case by simp
next
  case (Cons a calls)
  obtain args kwargs where a: "a = (args, kwargs)" by (cases a)
  have "stored_count (db (snd (call Cache_store self args kwargs w)) ''Cache.store'') = Some (c + 1)"
    using Cache_store_counts [OF client Cons.prems] .
  from Cons.IH [OF this] show ?case by (simp add: a)
qed

lemma replay_loop_keeps: "db (snd (replay_loop name ps w)) = db w"
  by (induction name ps w rule: replay_loop.induct) (simp_all split: sum.splits)

lemma replay_loop_urandom: "urandom (snd (replay_loop name ps w)) = urandom w"
  by (induction name ps w rule: replay_loop.induct) (simp_all split: sum.splits)

lemma replay_loop_ok:
  "list_all (\<lambda>p. decodable (fst p) \<and> decodable (snd p)) ps \<Longrightarrow>
   replay_loop name ps w = (Inr (), w\<lparr>stdout := stdout w @ map (replay_line name) ps\<rparr>)"
  by (induction name ps w rule: replay_loop.induct)
     (simp_all add: py_decode_def replay_line_def)

lemma keeps_exists: "keeps k (redis_exists k')"
  by (simp add: keeps_def redis_exists_def)

lemma keeps_get: "keeps k (redis_get k')"
  by (simp add: keeps_def redis_get_def split: option.splits rvalue.splits)

lemma keeps_lrange: "keeps k (redis_lrange k' a b)"
  by (simp add: keeps_def redis_lrange_def split: option.splits rvalue.splits)

lemma keeps_print: "keeps k (print s)"
  by (simp add: keeps_def print_def)

lemma keeps_lift: "keeps k (lift r)"
  by (simp add: lift_def keeps_ok keeps_raise split: sum.splits)

lemma keeps_replay_loop: "keeps k (replay_loop name ps)"
  by (simp add: keeps_def replay_loop_keeps)

lemma keeps_read_call_count: "keeps k (read_call_count name)"
  unfolding read_call_count_def
  by (intro keeps_bnd keeps_exists) (auto intro!: keeps_bnd keeps_get keeps_lift keeps_ok)

lemma keeps_replay_bound: "keeps k (replay_bound name)"
  unfolding replay_bound_def Let_def
  by (intro keeps_bnd keeps_read_call_count keeps_print keeps_lrange keeps_replay_loop)

lemma keeps_replay: "keeps k (replay fn)"
  by (simp add: replay_def keeps_ok keeps_replay_bound split: pycallable.splits)

lemma replay_db: "db (snd (replay fn w)) = db w"
  using keeps_replay by (auto simp: keeps_def)

lemma read_call_count_shown:
  assumes "shown_count (db w name) = Some n"
  shows "read_call_count name w = (Inr n, w)"
  using assms
  by (auto simp: read_call_count_def shown_count_def bnd_def redis_exists_def redis_get_def
      lift_def ok_def raise_def py_int_def split: option.splits rvalue.splits if_splits)

lemma redis_lrange_entries:
  "redis_lrange k 0 (- 1) w =
     (case log_entries (db w k) of None \<Rightarrow> (Inl ResponseError, w) | Some xs \<Rightarrow> (Inr xs, w))"
  by (simp add: redis_lrange_def log_entries_def list_range_all split: option.splits rvalue.splits)

lemma bnd_assoc: "bnd (bnd m f) g = bnd m (\<lambda>x. bnd (f x) g)"
  by (auto simp: bnd_def fun_eq_iff split: prod.splits sum.splits)

lemma replay_bound_ok:
  assumes cnt: "shown_count (db w name) = Some n"
    and ins: "log_entries (db w (name @ '':inputs'')) = Some ins"
    and outs: "log_entries (db w (name @ '':outputs'')) = Some outs"
    and dec: "list_all (\<lambda>p. decodable (fst p) \<and> decodable (snd p)) (zip ins outs)"
  shows "replay_bound name w =
           (Inr (), w\<lparr>stdout := stdout w @
              (name @ '' was called '' @ str_int n @ '' times:'') #
              map (replay_line name) (zip ins outs)\<rparr>)"
proof -
  have h: "read_call_count name w = (Inr n, w)"
    using cnt by (rule read_call_count_shown)
  have "replay_bound name w =
          replay_loop name (zip ins outs)
            (w\<lparr>stdout := stdout w @ [name @ '' was called '' @ str_int n @ '' times:'']\<rparr>)"
    by (simp add: replay_bound_def Let_def bnd_apply h print_def redis_lrange_entries ins outs)
  then show ?thesis
    by (simp add: replay_loop_ok [OF dec])
qed

lemma hex_fixed_numeral:
  "hex_fixed (numeral k) n = hex_fixed (pred_numeral k) (n div 16) @ [hex_digit (n mod 16)]"
  by (metis hex_fixed.simps(2) numeral_eq_Suc)

lemma uuid_zero: "uuid_str (uuid4_int 0) = key1"
  by (simp add: uuid_str_def uuid4_int_def hex_fixed_numeral hex_digit_def key1_def)

lemma uuid_one: "uuid_str (uuid4_int 1) = key2"
  by (simp add: uuid_str_def uuid4_int_def hex_fixed_numeral hex_digit_def key2_def)

lemma lift_apply: "lift r w = (r, w)"
  by (cases r) (simp_all add: lift_def ok_def raise_def)

lemma redis_incr_case:
  "redis_incr k w =
     (case stored_count (db w k) of
        None \<Rightarrow> (Inl ResponseError, w)
      | Some n \<Rightarrow> (Inr (n + 1), w\<lparr>db := (db w)(k \<mapsto> RString (str_int (n + 1)))\<rparr>))"
  by (simp add: redis_incr_stored redis_incr_fail split: option.splits)

lemma redis_rpush_case:
  "redis_rpush k v w =
     (case redis_encode v of
        Inl e \<Rightarrow> (Inl e, w)
      | Inr b \<Rightarrow>
          (case log_entries (db w k) of
             None \<Rightarrow> (Inl ResponseError, w)
           | Some xs \<Rightarrow> (Inr (length xs + 1), w\<lparr>db := (db w)(k \<mapsto> RList (xs @ [b]))\<rparr>)))"
  by (simp add: redis_rpush_log redis_rpush_fail split: option.splits sum.splits)

lemma store_body_case:
  assumes "redis_attr self = Some RedisClient"
  shows "store_body self args kwargs w =
     (case bind_data args kwargs w of
        (Inl e, w') \<Rightarrow> (Inl e, w)
      | (Inr data, w') \<Rightarrow>
          (case redis_encode data of
             Inl e \<Rightarrow> (Inl e, w\<lparr>urandom := stl (urandom w)\<rparr>)
           | Inr b \<Rightarrow>
               (Inr (PStr (uuid_str (uuid4_int (shd (urandom w))))),
                w\<lparr>db := (db w)(uuid_str (uuid4_int (shd (urandom w))) \<mapsto> RString b),
                  urandom := stl (urandom w)\<rparr>)))"
  unfolding store_body_client [OF assms]
  by (auto simp: bnd_def bind_data_def ok_def raise_def uuid4_def redis_set_def
      split: list.splits prod.splits sum.splits if_splits)

lemma scenario_keys:
  "''Cache.store'' \<noteq> key1" "''Cache.store:inputs'' \<noteq> key1" "''Cache.store:outputs'' \<noteq> key1"
  "''Cache.store'' \<noteq> key2" "''Cache.store:inputs'' \<noteq> key2" "''Cache.store:outputs'' \<noteq> key2"
  "key1 \<noteq> key2" "key2 \<noteq> key1"
  by (simp_all add: key1_def key2_def)

lemmas scenario_defs = world0_def cache_def stranger_def
lemmas eval_simps = bnd_apply ok_apply raise_apply lift_apply redis_incr_case redis_rpush_case
  stored_count_def log_entries_def string2ll_str_int redis_encode_def uuid_zero uuid_one
  bind_data_def scenario_keys

lemma str_tuple_foo: "str_tuple [PStr ''foo''] = [CHR ''('', CHR 0x27] @ ''foo'' @ [CHR 0x27] @ '',)''"
  by (simp add: str_tuple_def py_repr_def str_repr_def quote_for_def escape_char_def Let_def)

lemma str_tuple_None: "str_tuple [PNone] = ''(None,)''"
  by (simp add: str_tuple_def py_repr_def)

lemma str_tuple_bar: "str_tuple [PStr ''bar''] = [CHR ''('', CHR 0x27] @ ''bar'' @ [CHR 0x27] @ '',)''"
  by (simp add: str_tuple_def py_repr_def str_repr_def quote_for_def escape_char_def Let_def)


lemma Cache_get_case:
  assumes "redis_attr self = Some RedisClient"
  shows "Cache_get self key fn w =
     (case db w key of
        None \<Rightarrow> (case fn of None \<Rightarrow> (Inr PNone, w) | Some f \<Rightarrow> (f PNone, w))
      | Some (RString b) \<Rightarrow> (case fn of None \<Rightarrow> (Inr (PBytes b), w) | Some f \<Rightarrow> (f (PBytes b), w))
      | Some (RList xs) \<Rightarrow> (Inl ResponseError, w))"
  using assms
  by (simp add: Cache_get_def get_redis_client bnd_ok on_client_def bnd_apply redis_get_def
      ok_apply lift_apply Let_def split: option.splits rvalue.splits)

lemma Cache_store_stored:
  assumes client: "redis_attr self = Some RedisClient"
    and run: "call Cache_store self args kwargs w = (Inr out, w')"
  shows "\<exists>key data b. out = PStr key \<and> bind_data args kwargs = ok data \<and>
           redis_encode data = Inr b \<and> db w' key = Some (RString b)"
proof -
  from run obtain n w1 where s1: "redis_incr ''Cache.store'' w = (Inr n, w1)" and
    r1: "bnd (redis_rpush ''Cache.store:inputs'' (PStr (str_tuple args))) (\<lambda>_.
             bnd (store_body self args kwargs) (\<lambda>output.
             bnd (redis_rpush ''Cache.store:outputs'' output) (\<lambda>_. ok output))) w1 = (Inr out, w')"
    unfolding Cache_store_layers [OF client] by (erule bnd_InrE)
  from r1 obtain m w2
    where s2: "redis_rpush ''Cache.store:inputs'' (PStr (str_tuple args)) w1 = (Inr m, w2)" and
    r2: "bnd (store_body self args kwargs) (\<lambda>output.
             bnd (redis_rpush ''Cache.store:outputs'' output) (\<lambda>_. ok output)) w2 = (Inr out, w')"
    by (erule bnd_InrE)
  from r2 obtain o3 w3 where s3: "store_body self args kwargs w2 = (Inr o3, w3)"
    and r3: "bnd (redis_rpush ''Cache.store:outputs'' o3) (\<lambda>_. ok o3) w3 = (Inr out, w')"
    by (erule bnd_InrE)
  from store_body_InrE [OF client s3] obtain key b data
    where len: "length key = 36" and o3: "o3 = PStr key"
      and bd: "bind_data args kwargs = ok data" and enc: "redis_encode data = Inr b"
      and w3: "w3 = w2\<lparr>db := (db w2)(key \<mapsto> RString b), urandom := stl (urandom w2)\<rparr>"
    by metis
  from r3 obtain m4 w4 where s4: "redis_rpush ''Cache.store:outputs'' o3 w3 = (Inr m4, w4)"
    and r4: "ok o3 w4 = (Inr out, w')"
    by (erule bnd_InrE)
  have "key \<noteq> ''Cache.store:outputs''" using len by auto
  then have "db w4 key = db w3 key"
    using keepsD [OF keeps_rpush s4] by blast
  moreover from r4 have "out = o3" "w' = w4" by (simp_all add: ok_def)
  ultimately have "out = PStr key" "db w' key = Some (RString b)"
    using o3 w3 by simp_all
  with bd enc show ?thesis by blast
qed


lemma first_store: "call Cache_store cache [PStr ''foo''] [] world0 = (Inr (PStr key1), world1)"
  by (simp add: Cache_store_layers store_body_case scenario_defs eval_simps world1_def)


lemma two_stores:
  "run_calls Cache_store cache [([PStr ''foo''], []), ([PStr ''bar''], [])] world0 =
     (Inr [PStr key1, PStr key2], world2)"
  by (simp add: Cache_store_layers store_body_case scenario_defs eval_simps world2_def fun_upd_twist)

lemma str_int_small: "str_int 0 = ''0''" "str_int 1 = ''1''" "str_int 2 = ''2''"
  by (simp_all add: str_int_def str_nat.simps digit_char_def)

lemma str_tuple_one: "str_tuple [PInt 1] = ''(1,)''"
  by (simp add: str_tuple_def py_repr_def str_int_small)

lemma store_None:
  "call store_method cache [PNone] []
     (world0\<lparr>db := (db world0)(''Cache.store:inputs'' \<mapsto> RList ([] @ [str_tuple [PNone]]))\<rparr>) =
   (Inl DataError,
    world0\<lparr>db := [''Cache.store:inputs'' \<mapsto> RList [str_tuple [PNone]]],
           urandom := siterate (\<lambda>r. r + 1) 1\<rparr>)"
  by (simp add: store_method_def store_body_case cache_def world0_def bind_data_def ok_apply
      redis_encode_def)

lemma only_prints_ok: "only_prints (ok x)"
  unfolding only_prints_def ok_def
proof
  fix w :: world
  have "snd (Inr x, w) = w\<lparr>stdout := stdout w\<rparr>" by simp
  then show "\<exists>out. snd (Inr x, w) = w\<lparr>stdout := out\<rparr>" ..
qed

lemma only_prints_same: "(\<And>w. snd (m w) = w) \<Longrightarrow> only_prints m"
  unfolding only_prints_def
proof
  fix w :: world
  assume "\<And>w. snd (m w) = w"
  then have "snd (m w) = w\<lparr>stdout := stdout w\<rparr>" by simp
  then show "\<exists>out. snd (m w) = w\<lparr>stdout := out\<rparr>" ..
qed

lemma only_prints_raise: "only_prints (raise e)"
  by (rule only_prints_same) (simp add: raise_def)

lemma only_prints_lift: "only_prints (lift r)"
  by (rule only_prints_same) (simp add: lift_apply)

lemma only_prints_exists: "only_prints (redis_exists k)"
  by (rule only_prints_same) (simp add: redis_exists_def)

lemma only_prints_get: "only_prints (redis_get k)"
  by (rule only_prints_same) (simp add: redis_get_def split: option.splits rvalue.splits)

lemma only_prints_lrange: "only_prints (redis_lrange k a b)"
  by (rule only_prints_same) (simp add: redis_lrange_def split: option.splits rvalue.splits)

lemma only_prints_print: "only_prints (print s)"
  unfolding only_prints_def print_def by auto

lemma only_prints_bnd:
  assumes "only_prints m" and "\<And>x. only_prints (f x)"
  shows "only_prints (bnd m f)"
  unfolding only_prints_def
proof
  fix w
  obtain r w1 where mw: "m w = (r, w1)" by (cases "m w")
  from assms(1) obtain o1 where w1: "w1 = w\<lparr>stdout := o1\<rparr>"
    unfolding only_prints_def using mw by (metis snd_conv)
  show "\<exists>out. snd (bnd m f w) = w\<lparr>stdout := out\<rparr>"
  proof (cases r)
    case (Inl e)
    then show ?thesis using mw w1 by (auto simp: bnd_def)
  next
    case (Inr x)
    from assms(2) [of x] obtain o2 where "snd (f x w1) = w1\<lparr>stdout := o2\<rparr>"
      unfolding only_prints_def by blast
    then have "snd (bnd m f w) = w\<lparr>stdout := o2\<rparr>"
      using Inr mw w1 by (simp add: bnd_def)
    then show ?thesis ..
  qed
qed

lemma only_prints_replay_loop: "only_prints (replay_loop name ps)"
proof (induction ps)
  case Nil
  show ?case by (rule only_prints_same) simp
next
  case (Cons p ps)
  obtain i out where p: "p = (i, out)" by (cases p)
  show ?case
    unfolding only_prints_def
  proof
    fix w
    show "\<exists>out'. snd (replay_loop name (p # ps) w) = w\<lparr>stdout := out'\<rparr>"
    proof (cases "decodable i \<and> decodable out")
      case True
      let ?w1 = "w\<lparr>stdout := stdout w @ [name @ ''(*'' @ i @ '') -> '' @ out]\<rparr>"
      from Cons obtain o2 where "snd (replay_loop name ps ?w1) = ?w1\<lparr>stdout := o2\<rparr>"
        unfolding only_prints_def by blast
      then have "snd (replay_loop name (p # ps) w) = w\<lparr>stdout := o2\<rparr>"
        using True by (simp add: p py_decode_def)
      then show ?thesis ..
    next
      case False
      then have "snd (replay_loop name (p # ps) w) = w\<lparr>stdout := stdout w\<rparr>"
        by (auto simp: p py_decode_def)
      then show ?thesis ..
    qed
  qed
qed

lemma only_prints_read_call_count: "only_prints (read_call_count name)"
  unfolding read_call_count_def
  by (intro only_prints_bnd only_prints_exists)
     (auto intro!: only_prints_bnd only_prints_get only_prints_lift only_prints_ok)

lemma only_prints_replay_bound: "only_prints (replay_bound name)"
  unfolding replay_bound_def Let_def
  by (intro only_prints_bnd only_prints_read_call_count only_prints_print only_prints_lrange
      only_prints_replay_loop)

lemma only_prints_replay: "only_prints (replay fn)"
  by (simp add: replay_def only_prints_ok only_prints_replay_bound split: pycallable.splits)

lemma float_store:
  "call Cache_store cache [PFloat 0x3FF8000000000000] [] world0 = (Inr (PStr key1), world_float)"
  by (simp add: Cache_store_layers store_body_case scenario_defs eval_simps world_float_def)

lemma decodable_samples:
  "decodable (str_tuple [PStr ''foo''])" "decodable (str_tuple [PNone])" "decodable key1"
  by (simp_all add: str_tuple_foo str_tuple_None key1_def decodable_def)

lemma blob_call:
  "call (call_history blob_method) cache [PInt 1] [] world0 = (Inr (PBytes [CHR 0xFF]), world_blob)"
  by (simp add: call_history_client cache_def blob_method_def world_blob_def world0_def
      bnd_apply ok_apply redis_rpush_case redis_encode_def log_entries_def)

lemma float_trunc_samples:
  "float_trunc 0x3FF8000000000000 = Inr 1"
  "float_trunc 0xC004000000000000 = Inr (- 2)"
  "float_trunc 0x4059000000000000 = Inr 100"
  "float_trunc 0 = Inr 0"
  "float_trunc 0x7FF0000000000000 = Inl OverflowError"
  "float_trunc 0x7FF8000000000000 = Inl ValueError"
  by (simp_all add: float_trunc_def Let_def)

section \<open>The claims\<close>

text \<open>
  C1. From a world where both logs of \<^verbatim>\<open>Cache.store\<close> are empty, after \<open>N\<close> calls of the
  decorated \<^verbatim>\<open>store\<close> that all returned, the Inputs log and the Outputs log each have
  \<open>N\<close> entries; the Inputs log is the list of \<^verbatim>\<open>str(args)\<close> of the calls, in order, and
  the Outputs log, read as text, is the list of the values the calls returned, in order.
\<close>

theorem history_alignment:
  assumes "redis_attr self = Some RedisClient"
    and "log_entries (db w ''Cache.store:inputs'') = Some []"
    and "log_entries (db w ''Cache.store:outputs'') = Some []"
    and "run_calls Cache_store self calls w = (Inr results, w')"
  shows "log_entries (db w' ''Cache.store:inputs'') = Some (map (\<lambda>c. str_tuple (fst c)) calls) \<and>
         map_option (map PStr) (log_entries (db w' ''Cache.store:outputs'')) = Some results \<and>
         map_option length (log_entries (db w' ''Cache.store:inputs'')) = Some (length calls) \<and>
         map_option length (log_entries (db w' ''Cache.store:outputs'')) = Some (length calls)"
proof -
  from run_calls_logs [OF assms(1) assms(4) assms(2) assms(3)]
  obtain keys where "results = map PStr keys" "length keys = length calls"
    "log_entries (db w' ''Cache.store:inputs'') = Some ([] @ map (\<lambda>c. str_tuple (fst c)) calls)"
    "log_entries (db w' ''Cache.store:outputs'') = Some ([] @ keys)"
    by blast
  then show ?thesis by simp
qed

theorem history_alignment_witness:
  "redis_attr cache = Some RedisClient \<and>
   log_entries (db world0 ''Cache.store:inputs'') = Some [] \<and>
   log_entries (db world0 ''Cache.store:outputs'') = Some [] \<and>
   run_calls Cache_store cache [([PStr ''foo''], []), ([PStr ''bar''], [])] world0 =
     (Inr [PStr key1, PStr key2], world2) \<and>
   log_entries (db world2 ''Cache.store:inputs'') =
     Some [str_tuple [PStr ''foo''], str_tuple [PStr ''bar'']] \<and>
   map_option (map PStr) (log_entries (db world2 ''Cache.store:outputs'')) =
     Some [PStr key1, PStr key2] \<and>
   map_option length (log_entries (db world2 ''Cache.store:inputs'')) = Some 2 \<and>
   map_option length (log_entries (db world2 ''Cache.store:outputs'')) = Some 2"
proof -
  have c: "redis_attr cache = Some RedisClient" by (simp add: cache_def)
  have i: "log_entries (db world0 ''Cache.store:inputs'') = Some []"
    and out: "log_entries (db world0 ''Cache.store:outputs'') = Some []"
    by (simp_all add: world0_def log_entries_def)
  have e1: "map (\<lambda>c. str_tuple (fst c)) [([PStr ''foo''], []), ([PStr ''bar''], [])] =
      [str_tuple [PStr ''foo''], str_tuple [PStr ''bar'']]"
    by simp
  have e2: "length [([PStr ''foo''], []), ([PStr ''bar''], [])] = (2::nat)"
    by simp
  note h = history_alignment [OF c i out two_stores, unfolded e1 e2]
  show ?thesis
    using c i out two_stores h by blast
qed

text \<open>
  C4. On an instance that holds a client, a call of a \<^verbatim>\<open>count_calls\<close> wrapper whose counter
  reads \<open>c\<close> is the call of the wrapped method in the world where the counter reads
  \<open>c + 1\<close>: one increment, made before the method runs and whatever the method then
  does. For the decorated \<^verbatim>\<open>store\<close>, after \<open>N\<close> attempted calls, failed ones included, the
  counter has grown by exactly \<open>N\<close>; from a fresh counter it reads \<open>N\<close>.
\<close>

theorem count_calls_increments:
  assumes "redis_attr self = Some RedisClient"
  shows "(stored_count (db w (qualname m)) = Some c \<longrightarrow>
            call (count_calls m) self args kwargs w =
              call m self args kwargs
                (w\<lparr>db := (db w)(qualname m \<mapsto> RString (str_int (c + 1)))\<rparr>)) \<and>
         (stored_count (db w ''Cache.store'') = Some c \<longrightarrow>
            stored_count (db (attempt_calls Cache_store self calls w) ''Cache.store'') =
              Some (c + int (length calls)))"
proof -
  have "call (count_calls m) self args kwargs w =
          call m self args kwargs (w\<lparr>db := (db w)(qualname m \<mapsto> RString (str_int (c + 1)))\<rparr>)"
    if "stored_count (db w (qualname m)) = Some c"
    using redis_incr_stored [OF that]
    by (simp add: count_calls_client [OF assms] bnd_apply)
  then show ?thesis
    using attempt_calls_counts [OF assms] by blast
qed

theorem count_calls_increments_witness:
  "redis_attr cache = Some RedisClient \<and>
   stored_count (db world0 ''Cache.store'') = Some 0 \<and>
   call (count_calls store_method) cache [PNone] [] world0 =
     call store_method cache [PNone] []
       (world0\<lparr>db := (db world0)(''Cache.store'' \<mapsto> RString (str_int 1))\<rparr>) \<and>
   stored_count
     (db (attempt_calls Cache_store cache [([PStr ''foo''], []), ([PNone], []), ([], [])] world0)
        ''Cache.store'') = Some 3"
proof -
  have c: "redis_attr cache = Some RedisClient" by (simp add: cache_def)
  have z: "stored_count (db world0 ''Cache.store'') = Some 0"
    by (simp add: world0_def stored_count_def)
  have q: "qualname store_method = ''Cache.store''" by (simp add: store_method_def)
  from count_calls_increments [OF c, of world0 store_method 0 "[PNone]" "[]"
      "[([PStr ''foo''], []), ([PNone], []), ([], [])]"] c z q
  show ?thesis by simp
qed

text \<open>
  C6. \<^verbatim>\<open>store\<close> is \<^verbatim>\<open>count_calls\<close> applied to \<^verbatim>\<open>call_history\<close> applied to the body, under the
  name \<^verbatim>\<open>Cache.store\<close>; on an instance that holds a client a call increments the counter,
  then logs the input, then runs the body, then logs the value the body returned and
  returns it.
\<close>

theorem store_layers:
  assumes "redis_attr self = Some RedisClient"
  shows "Cache_store = count_calls (call_history store_method) \<and>
         qualname Cache_store = ''Cache.store'' \<and>
         call Cache_store self args kwargs =
           bnd (redis_incr ''Cache.store'') (\<lambda>_.
           bnd (redis_rpush ''Cache.store:inputs'' (PStr (str_tuple args))) (\<lambda>_.
           bnd (store_body self args kwargs) (\<lambda>output.
           bnd (redis_rpush ''Cache.store:outputs'' output) (\<lambda>_. ok output))))"
  using Cache_store_layers [OF assms]
  by (simp add: Cache_store_def qualname_count_calls qualname_call_history store_method_def)

theorem store_layers_witness:
  "redis_attr cache = Some RedisClient \<and>
   Cache_store = count_calls (call_history store_method) \<and>
   qualname Cache_store = ''Cache.store'' \<and>
   call Cache_store cache [PStr ''foo''] [] =
           bnd (redis_incr ''Cache.store'') (\<lambda>_.
           bnd (redis_rpush ''Cache.store:inputs'' (PStr (str_tuple [PStr ''foo'']))) (\<lambda>_.
           bnd (store_body cache [PStr ''foo''] []) (\<lambda>output.
           bnd (redis_rpush ''Cache.store:outputs'' output) (\<lambda>_. ok output))))"
  using store_layers [of cache "[PStr ''foo'']" "[]"]
  by (simp add: cache_def)

text \<open>
  C10. On an instance whose \<^verbatim>\<open>_redis\<close> is not a Redis client, a call through either
  wrapper is the call of the wrapped method, with the same arguments, the same result and
  the same effect on the world: nothing is incremented or appended.
\<close>

theorem wrappers_skip_other_handle:
  assumes "redis_attr self = Some OtherObject"
  shows "call (count_calls m) self args kwargs w = call m self args kwargs w \<and>
         call (call_history m) self args kwargs w = call m self args kwargs w"
  using assms by (rule wrappers_other)

theorem wrappers_skip_other_handle_witness:
  "redis_attr stranger = Some OtherObject \<and>
   call (count_calls answer_method) stranger [PStr ''x''] [] world0 = (Inr (PInt 42), world0) \<and>
   call (call_history answer_method) stranger [PStr ''x''] [] world0 = (Inr (PInt 42), world0)"
  using wrappers_skip_other_handle [of stranger answer_method "[PStr ''x'']" "[]" world0]
  by (simp add: stranger_def answer_method_def ok_def)

text \<open>
  C5. On an instance that holds a client, when the wrapped method fails in the world where
  the input has just been appended to the Inputs log, the \<^verbatim>\<open>call_history\<close> wrapper fails
  with the same error and leaves the world as the method left it: nothing is appended
  afterwards. So for a method that does not itself touch the two logs, the Inputs log has
  the new entry and the Outputs log is as it was before the call.
\<close>

theorem history_failure:
  assumes "redis_attr self = Some RedisClient"
    and "log_entries (db w (qualname m @ '':inputs'')) = Some ins"
    and "call m self args kwargs
           (w\<lparr>db := (db w)(qualname m @ '':inputs'' \<mapsto> RList (ins @ [str_tuple args]))\<rparr>) = (Inl e, w')"
  shows "call (call_history m) self args kwargs w = (Inl e, w') \<and>
         (keeps (qualname m @ '':inputs'') (call m self args kwargs) \<longrightarrow>
          keeps (qualname m @ '':outputs'') (call m self args kwargs) \<longrightarrow>
            log_entries (db w' (qualname m @ '':inputs'')) = Some (ins @ [str_tuple args]) \<and>
            db w' (qualname m @ '':outputs'') = db w (qualname m @ '':outputs''))"
proof -
  let ?w1 = "w\<lparr>db := (db w)(qualname m @ '':inputs'' \<mapsto> RList (ins @ [str_tuple args]))\<rparr>"
  have push: "redis_rpush (qualname m @ '':inputs'') (PStr (str_tuple args)) w = (Inr (length ins + 1), ?w1)"
    by (rule redis_rpush_log) (simp_all add: redis_encode_def assms(2))
  have 1: "call (call_history m) self args kwargs w = (Inl e, w')"
    by (simp add: call_history_client [OF assms(1)] bnd_apply push assms(3))
  have 2: "log_entries (db w' (qualname m @ '':inputs'')) = Some (ins @ [str_tuple args])"
    if "keeps (qualname m @ '':inputs'') (call m self args kwargs)"
    using keepsD [OF that assms(3)] by (simp add: log_entries_def)
  have 3: "db w' (qualname m @ '':outputs'') = db w (qualname m @ '':outputs'')"
    if "keeps (qualname m @ '':outputs'') (call m self args kwargs)"
    using keepsD [OF that assms(3)] by simp
  from 1 2 3 show ?thesis by blast
qed

theorem history_failure_witness:
  "redis_attr cache = Some RedisClient \<and>
   log_entries (db world0 ''Cache.store:inputs'') = Some [] \<and>
   call store_method cache [PNone] []
     (world0\<lparr>db := (db world0)(''Cache.store:inputs'' \<mapsto> RList ([] @ [str_tuple [PNone]]))\<rparr>) =
   (Inl DataError,
    world0\<lparr>db := [''Cache.store:inputs'' \<mapsto> RList [str_tuple [PNone]]],
           urandom := siterate (\<lambda>r. r + 1) 1\<rparr>) \<and>
   call (call_history store_method) cache [PNone] [] world0 =
   (Inl DataError,
    world0\<lparr>db := [''Cache.store:inputs'' \<mapsto> RList [str_tuple [PNone]]],
           urandom := siterate (\<lambda>r. r + 1) 1\<rparr>) \<and>
   keeps ''Cache.store:inputs'' (call store_method cache [PNone] []) \<and>
   keeps ''Cache.store:outputs'' (call store_method cache [PNone] []) \<and>
   log_entries (db (world0\<lparr>db := [''Cache.store:inputs'' \<mapsto> RList [str_tuple [PNone]]],
           urandom := siterate (\<lambda>r. r + 1) 1\<rparr>) ''Cache.store:inputs'') = Some ([] @ [str_tuple [PNone]]) \<and>
   db (world0\<lparr>db := [''Cache.store:inputs'' \<mapsto> RList [str_tuple [PNone]]],
           urandom := siterate (\<lambda>r. r + 1) 1\<rparr>) ''Cache.store:outputs'' = db world0 ''Cache.store:outputs''"
proof -
  have c: "redis_attr cache = Some RedisClient" by (simp add: cache_def)
  have q: "qualname store_method = ''Cache.store''" by (simp add: store_method_def)
  have i: "log_entries (db world0 (qualname store_method @ '':inputs'')) = Some []"
    by (simp add: world0_def log_entries_def)
  have k1: "keeps ''Cache.store:inputs'' (call store_method cache [PNone] [])"
    and k2: "keeps ''Cache.store:outputs'' (call store_method cache [PNone] [])"
    by (simp_all add: store_method_def keeps_store_body)
  have f: "call store_method cache [PNone] []
     (world0\<lparr>db := (db world0)(qualname store_method @ '':inputs'' \<mapsto> RList ([] @ [str_tuple [PNone]]))\<rparr>) =
   (Inl DataError,
    world0\<lparr>db := [''Cache.store:inputs'' \<mapsto> RList [str_tuple [PNone]]],
           urandom := siterate (\<lambda>r. r + 1) 1\<rparr>)"
    using store_None by (simp add: q)
  note h = history_failure [OF c i f]
  show ?thesis
    using c i f h k1 k2 by (simp add: q)
qed


text \<open>
  C8. \<^verbatim>\<open>replay\<close> leaves the database (and the entropy source) as it found them, whatever
  it is given; given \<^verbatim>\<open>None\<close>, a plain function, or a method bound to an instance whose
  \<^verbatim>\<open>_redis\<close> is missing or is not a Redis client, it returns without printing and without
  an error.
\<close>

theorem replay_read_only:
  "db (snd (replay fn w)) = db w \<and>
   urandom (snd (replay fn w)) = urandom w \<and>
   replay NoneFn w = (Inr (), w) \<and>
   replay (PlainFunction name) w = (Inr (), w) \<and>
   (redis_attr self \<noteq> Some RedisClient \<longrightarrow> replay (BoundMethod self name) w = (Inr (), w))"
proof -
  from only_prints_replay [of fn] obtain out where "snd (replay fn w) = w\<lparr>stdout := out\<rparr>"
    unfolding only_prints_def by blast
  then have "db (snd (replay fn w)) = db w" "urandom (snd (replay fn w)) = urandom w"
    by simp_all
  then show ?thesis
    by (simp add: replay_def ok_def)
qed

theorem replay_read_only_witness:
  "db (snd (replay (BoundMethod cache ''Cache.store'') world2)) = db world2 \<and>
   urandom (snd (replay (BoundMethod cache ''Cache.store'') world2)) = urandom world2 \<and>
   replay NoneFn world2 = (Inr (), world2) \<and>
   replay (PlainFunction ''Cache.store'') world2 = (Inr (), world2) \<and>
   redis_attr stranger \<noteq> Some RedisClient \<and>
   replay (BoundMethod stranger ''Cache.store'') world2 = (Inr (), world2)"
  using replay_read_only [where fn = "BoundMethod cache ''Cache.store''" and w = world2
      and name = "''Cache.store''" and self = stranger]
  by (simp add: stranger_def)

text \<open>
  C2. The claim asks that \<^verbatim>\<open>get\<close> skip the transform when nothing is stored under the key
  and give \<^verbatim>\<open>None\<close>. The code tests only whether a transform was given: on a key that
  is not set, \<^verbatim>\<open>get(key, fn=int)\<close> calls \<^verbatim>\<open>int(None)\<close> and raises a TypeError, and
  \<^verbatim>\<open>get(key, fn=lambda d: d.decode("utf-8"))\<close> raises an AttributeError, while \<^verbatim>\<open>get\<close>
  without a transform, \<^verbatim>\<open>get_str\<close> and \<^verbatim>\<open>get_int\<close>, which test for \<^verbatim>\<open>None\<close>, all give
  \<^verbatim>\<open>None\<close> there.
\<close>

theorem get_calls_transform_on_missing_key:
  "db world0 ''nonexistent-key'' = None \<and>
   Cache_get cache ''nonexistent-key'' None world0 = (Inr PNone, world0) \<and>
   Cache_get cache ''nonexistent-key'' (Some fn_int) world0 = (Inl TypeError, world0) \<and>
   Cache_get cache ''nonexistent-key'' (Some fn_decode) world0 = (Inl AttributeError, world0) \<and>
   Cache_get_str cache ''nonexistent-key'' world0 = (Inr PNone, world0) \<and>
   get_int cache ''nonexistent-key'' world0 = (Inr PNone, world0)"
proof -
  have c: "redis_attr cache = Some RedisClient" by (simp add: cache_def)
  have a: "db world0 ''nonexistent-key'' = None" by (simp add: world0_def)
  show ?thesis
    by (simp add: a Cache_get_case [OF c] Cache_get_str_def get_int_def bnd_apply ok_apply
        fn_int_def fn_decode_def py_int_def)
qed

text \<open>
  C3 (amended). After a successful \<^verbatim>\<open>store(v)\<close>, \<^verbatim>\<open>get\<close> of the returned key gives the
  bytes that the client sent for \<open>v\<close>, and that is \<open>v\<close> back exactly when \<open>v\<close> is a byte
  string. Text comes back as its UTF-8 bytes, an integer as its decimal digits, a float as
  the bytes of its \<^verbatim>\<open>repr\<close>; text and integers are recovered exactly by \<^verbatim>\<open>get\<close> with the
  matching transform (UTF-8 decoding, \<^verbatim>\<open>int\<close>).
\<close>

theorem store_then_get:
  assumes "redis_attr self = Some RedisClient"
    and "call Cache_store self [v] [] w = (Inr out, w')"
  shows "\<exists>key b. out = PStr key \<and> redis_encode v = Inr b \<and>
           Cache_get self key None w' = (Inr (PBytes b), w') \<and>
           (Cache_get self key None w' = (Inr v, w')) = (\<exists>x. v = PBytes x) \<and>
           (\<forall>s. v = PStr s \<longrightarrow> b = s \<and>
              (decodable s \<longrightarrow> Cache_get self key (Some fn_decode) w' = (Inr v, w'))) \<and>
           (\<forall>i. v = PInt i \<longrightarrow> b = str_int i \<and>
              Cache_get self key (Some fn_int) w' = (Inr v, w')) \<and>
           (\<forall>f. v = PFloat f \<longrightarrow> b = float_repr f)"
proof -
  from Cache_store_stored [OF assms] obtain key data b
    where out: "out = PStr key" and bd: "bind_data [v] [] = ok data"
      and enc: "redis_encode data = Inr b" and st: "db w' key = Some (RString b)"
    by blast
  from bd have "data = v"
    by (simp add: bind_data_def ok_def fun_eq_iff)
  with enc have enc': "redis_encode v = Inr b" by simp
  have g: "\<And>fn. Cache_get self key fn w' =
      (case fn of None \<Rightarrow> (Inr (PBytes b), w') | Some f \<Rightarrow> (f (PBytes b), w'))"
    by (simp add: Cache_get_case [OF assms(1)] st)
  have 1: "(Cache_get self key None w' = (Inr v, w')) = (\<exists>x. v = PBytes x)"
    using enc' by (cases v) (auto simp: g redis_encode_def)
  have 2: "\<forall>s. v = PStr s \<longrightarrow> b = s \<and>
      (decodable s \<longrightarrow> Cache_get self key (Some fn_decode) w' = (Inr v, w'))"
    using enc' by (auto simp: g redis_encode_def fn_decode_def py_decode_def)
  have 3: "\<forall>i. v = PInt i \<longrightarrow> b = str_int i \<and>
      Cache_get self key (Some fn_int) w' = (Inr v, w')"
    using enc' by (auto simp: g redis_encode_def fn_int_def py_int_def parse_int_str_int)
  have 4: "\<forall>f. v = PFloat f \<longrightarrow> b = float_repr f"
    using enc' by (auto simp: redis_encode_def)
  have 0: "Cache_get self key None w' = (Inr (PBytes b), w')"
    by (simp add: g)
  from out enc' 0 1 2 3 4 show ?thesis by blast
qed

theorem store_then_get_witness:
  "redis_attr cache = Some RedisClient \<and>
   call Cache_store cache [PFloat 0x3FF8000000000000] [] world0 = (Inr (PStr key1), world_float) \<and>
   (\<exists>key b. PStr key1 = PStr key \<and> redis_encode (PFloat 0x3FF8000000000000) = Inr b \<and>
           Cache_get cache key None world_float = (Inr (PBytes b), world_float) \<and>
           (Cache_get cache key None world_float = (Inr (PFloat 0x3FF8000000000000), world_float)) =
             (\<exists>x. PFloat 0x3FF8000000000000 = PBytes x) \<and>
           (\<forall>s. PFloat 0x3FF8000000000000 = PStr s \<longrightarrow> b = s \<and>
              (decodable s \<longrightarrow> Cache_get cache key (Some fn_decode) world_float =
                 (Inr (PFloat 0x3FF8000000000000), world_float))) \<and>
           (\<forall>i. PFloat 0x3FF8000000000000 = PInt i \<longrightarrow> b = str_int i \<and>
              Cache_get cache key (Some fn_int) world_float =
                 (Inr (PFloat 0x3FF8000000000000), world_float)) \<and>
           (\<forall>f. PFloat 0x3FF8000000000000 = PFloat f \<longrightarrow> b = float_repr f))"
proof -
  have c: "redis_attr cache = Some RedisClient" by (simp add: cache_def)
  show ?thesis
    using c float_store store_then_get [OF c float_store] by blast
qed

text \<open>
  The claim as stated fails for text and for floats: \<^verbatim>\<open>store("foo")\<close> followed by \<^verbatim>\<open>get\<close>
  of the returned key gives the byte string \<^verbatim>\<open>b"foo"\<close>, which is not the text \<^verbatim>\<open>"foo"\<close>,
  and \<^verbatim>\<open>store(1.5)\<close> followed by \<^verbatim>\<open>get\<close> gives a byte string, which is not the float.
\<close>

theorem store_then_get_counterexample:
  "call Cache_store cache [PStr ''foo''] [] world0 = (Inr (PStr key1), world1) \<and>
   Cache_get cache key1 None world1 = (Inr (PBytes ''foo''), world1) \<and>
   PBytes ''foo'' \<noteq> PStr ''foo'' \<and>
   call Cache_store cache [PFloat 0x3FF8000000000000] [] world0 = (Inr (PStr key1), world_float) \<and>
   Cache_get cache key1 None world_float =
     (Inr (PBytes (float_repr 0x3FF8000000000000)), world_float) \<and>
   PBytes (float_repr 0x3FF8000000000000) \<noteq> PFloat 0x3FF8000000000000"
proof -
  have c: "redis_attr cache = Some RedisClient" by (simp add: cache_def)
  have "db world1 key1 = Some (RString ''foo'')"
    using scenario_keys by (simp add: world1_def world0_def)
  then have 1: "Cache_get cache key1 None world1 = (Inr (PBytes ''foo''), world1)"
    by (simp add: Cache_get_case [OF c])
  have "db world_float key1 = Some (RString (float_repr 0x3FF8000000000000))"
    using scenario_keys by (simp add: world_float_def world0_def)
  then have 2: "Cache_get cache key1 None world_float =
     (Inr (PBytes (float_repr 0x3FF8000000000000)), world_float)"
    by (simp add: Cache_get_case [OF c])
  show ?thesis using first_store float_store 1 2 by simp
qed

text \<open>
  C7 (amended). On an instance that holds a client, with a readable counter, for every pair
  of Inputs and Outputs logs whose paired entries are valid UTF-8, whatever their lengths,
  \<^verbatim>\<open>replay\<close> prints the header line and then exactly \<open>min (length ins) (length outs)\<close>
  lines, the \<open>i\<close>-th built from entry \<open>i\<close> of Inputs and entry \<open>i\<close> of Outputs; the
  unmatched tail is dropped and \<^verbatim>\<open>replay\<close> returns without an error.
\<close>

theorem replay_pairs:
  assumes "redis_attr self = Some RedisClient"
    and "shown_count (db w name) = Some n"
    and "log_entries (db w (name @ '':inputs'')) = Some ins"
    and "log_entries (db w (name @ '':outputs'')) = Some outs"
    and "list_all (\<lambda>p. decodable (fst p) \<and> decodable (snd p)) (zip ins outs)"
  shows "replay (BoundMethod self name) w =
           (Inr (), w\<lparr>stdout := stdout w @
              (name @ '' was called '' @ str_int n @ '' times:'') #
              map (replay_line name) (zip ins outs)\<rparr>) \<and>
         length (map (replay_line name) (zip ins outs)) = min (length ins) (length outs) \<and>
         (\<forall>i < min (length ins) (length outs).
            map (replay_line name) (zip ins outs) ! i =
              name @ ''(*'' @ ins ! i @ '') -> '' @ outs ! i)"
proof -
  have "replay (BoundMethod self name) w = replay_bound name w"
    using assms(1) by (simp add: replay_def)
  with replay_bound_ok [OF assms(2-5)] show ?thesis
    by (simp add: replay_line_def)
qed

theorem replay_pairs_witness:
  "redis_attr cache = Some RedisClient \<and>
   shown_count (db world_torn ''Cache.store'') = Some 2 \<and>
   log_entries (db world_torn ''Cache.store:inputs'') =
     Some [str_tuple [PStr ''foo''], str_tuple [PNone]] \<and>
   log_entries (db world_torn ''Cache.store:outputs'') = Some [key1] \<and>
   list_all (\<lambda>p. decodable (fst p) \<and> decodable (snd p))
     (zip [str_tuple [PStr ''foo''], str_tuple [PNone]] [key1]) \<and>
   replay (BoundMethod cache ''Cache.store'') world_torn =
     (Inr (), world_torn\<lparr>stdout := stdout world_torn @
        (''Cache.store'' @ '' was called '' @ str_int 2 @ '' times:'') #
        map (replay_line ''Cache.store'') (zip [str_tuple [PStr ''foo''], str_tuple [PNone]] [key1])\<rparr>) \<and>
   length (map (replay_line ''Cache.store'')
     (zip [str_tuple [PStr ''foo''], str_tuple [PNone]] [key1])) =
     min (length [str_tuple [PStr ''foo''], str_tuple [PNone]]) (length [key1]) \<and>
   min (length [str_tuple [PStr ''foo''], str_tuple [PNone]]) (length [key1]) = 1"
proof -
  have c: "redis_attr cache = Some RedisClient" by (simp add: cache_def)
  have n: "shown_count (db world_torn ''Cache.store'') = Some 2"
  proof -
    have "db world_torn ''Cache.store'' = Some (RString (str_int 2))"
      by (simp add: world_torn_def world0_def scenario_keys)
    moreover have "str_int 2 \<noteq> []" by (simp add: str_int_small)
    ultimately show ?thesis
      by (simp add: shown_count_def parse_int_str_int)
  qed
  have i: "log_entries (db world_torn (''Cache.store'' @ '':inputs'')) =
      Some [str_tuple [PStr ''foo''], str_tuple [PNone]]"
    by (simp add: world_torn_def world0_def log_entries_def scenario_keys)
  have out: "log_entries (db world_torn (''Cache.store'' @ '':outputs'')) = Some [key1]"
    by (simp add: world_torn_def world0_def log_entries_def)
  have d: "list_all (\<lambda>p. decodable (fst p) \<and> decodable (snd p))
     (zip [str_tuple [PStr ''foo''], str_tuple [PNone]] [key1])"
    by (simp add: decodable_samples)
  note h = replay_pairs [OF c n i out d]
  from h have h1: "replay (BoundMethod cache ''Cache.store'') world_torn =
     (Inr (), world_torn\<lparr>stdout := stdout world_torn @
        (''Cache.store'' @ '' was called '' @ str_int 2 @ '' times:'') #
        map (replay_line ''Cache.store'') (zip [str_tuple [PStr ''foo''], str_tuple [PNone]] [key1])\<rparr>)"
    by (rule conjunct1)
  from h have h2: "length (map (replay_line ''Cache.store'')
     (zip [str_tuple [PStr ''foo''], str_tuple [PNone]] [key1])) =
     min (length [str_tuple [PStr ''foo''], str_tuple [PNone]]) (length [key1])"
    by (rule conjunct1 [OF conjunct2])
  have m: "min (length [str_tuple [PStr ''foo''], str_tuple [PNone]]) (length [key1]) = 1"
    by simp
  from i out have i': "log_entries (db world_torn ''Cache.store:inputs'') =
      Some [str_tuple [PStr ''foo''], str_tuple [PNone]]"
    and out': "log_entries (db world_torn ''Cache.store:outputs'') = Some [key1]"
    by simp_all
  show ?thesis
    using c n i' out' d h1 h2 m by (intro conjI)
qed

text \<open>
  The claim as stated fails for a log entry that is not UTF-8: after one call of a
  history-wrapped method that returns \<^verbatim>\<open>b"\xff"\<close>, both logs have one entry and \<^verbatim>\<open>replay\<close>
  raises a UnicodeDecodeError when it decodes the output.
\<close>

theorem replay_fails_counterexample:
  "call (call_history blob_method) cache [PInt 1] [] world0 = (Inr (PBytes [CHR 0xFF]), world_blob) \<and>
   log_entries (db world_blob ''Blob.make:inputs'') = Some [''(1,)''] \<and>
   log_entries (db world_blob ''Blob.make:outputs'') = Some [[CHR 0xFF]] \<and>
   fst (replay (BoundMethod cache ''Blob.make'') world_blob) = Inl UnicodeDecodeError"
proof -
  have i: "log_entries (db world_blob ''Blob.make:inputs'') = Some [''(1,)'']"
    and out: "log_entries (db world_blob ''Blob.make:outputs'') = Some [[CHR 0xFF]]"
    by (simp_all add: world_blob_def world0_def log_entries_def str_tuple_one)
  have n: "read_call_count ''Blob.make'' world_blob = (Inr 0, world_blob)"
    by (rule read_call_count_shown) (simp add: world_blob_def world0_def shown_count_def)
  have "fst (replay (BoundMethod cache ''Blob.make'') world_blob) = Inl UnicodeDecodeError"
    using i out
    by (simp add: replay_def cache_def replay_bound_def Let_def bnd_apply n print_def
        redis_lrange_entries py_decode_def decodable_def)
  with blob_call i out show ?thesis by simp
qed

text \<open>
  C9. The claim asks for a text variant that decodes the stored bytes and for both
  variants to be callable on a \<^verbatim>\<open>Cache\<close> instance. After \<^verbatim>\<open>store("foo")\<close>, \<^verbatim>\<open>get_str\<close> of the
  returned key gives \<^verbatim>\<open>str(b"foo")\<close>, the text \<^verbatim>\<open>b'foo'\<close> of seven characters, where decoding
  gives \<^verbatim>\<open>foo\<close>; and \<^verbatim>\<open>get_int\<close> is bound in the module, not in the class.
\<close>

theorem get_str_gives_repr:
  "call Cache_store cache [PStr ''foo''] [] world0 = (Inr (PStr key1), world1) \<and>
   Cache_get_str cache key1 world1 = (Inr (PStr (''b'' @ [CHR 0x27] @ ''foo'' @ [CHR 0x27])), world1) \<and>
   Cache_get cache key1 (Some fn_decode) world1 = (Inr (PStr ''foo''), world1) \<and>
   PStr (''b'' @ [CHR 0x27] @ ''foo'' @ [CHR 0x27]) \<noteq> PStr ''foo'' \<and>
   ''get_int'' \<notin> set Cache_attributes \<and> ''get_int'' \<in> set module_functions"
proof -
  have st: "db world1 key1 = Some (RString ''foo'')"
    using scenario_keys by (simp add: world1_def world0_def)
  have c: "redis_attr cache = Some RedisClient" by (simp add: cache_def)
  have 1: "Cache_get_str cache key1 world1 =
      (Inr (PStr (''b'' @ [CHR 0x27] @ ''foo'' @ [CHR 0x27])), world1)"
    by (simp add: Cache_get_str_def bnd_apply Cache_get_case [OF c] st ok_apply py_str_def
        py_repr_def bytes_repr_def quote_for_def escape_char_def Let_def)
  have 2: "Cache_get cache key1 (Some fn_decode) world1 = (Inr (PStr ''foo''), world1)"
    by (simp add: Cache_get_case [OF c] st fn_decode_def py_decode_def decodable_def)
  show ?thesis
    using first_store 1 2 by (simp add: Cache_attributes_def module_functions_def)
qed

end
